theory Spec2Isabelle
  imports Complex_Main "HOL-Library.Signed_Division" "HOL-Library.Word"
begin

section \<open>Conventions of the embedding\<close>

text \<open>
  The development embeds the grid reader \<open>EGrid\<close> and the summary reader \<open>ESmry\<close> of
  \<^verbatim>\<open>src/opm/io/eclipse/EGrid.cpp\<close>.

  \<^item> A C++ \<open>int\<close> is an integer; \<open>/\<close> and \<open>%\<close> are the truncating \<open>sdiv\<close> and \<open>smod\<close>.
    In the index arithmetic of \<open>EGrid\<close> and in the ministep check of \<open>ESmry\<close> the results
    of \<open>+\<close>, \<open>-\<close> and \<open>*\<close> are reduced to 32 bits (\<open>int_add\<close>, \<open>int_sub\<close>, \<open>int_mul\<close>), as
    on the two's complement machines the code runs on. Elsewhere the theorems assume that
    the quantities involved fit into 32 bits wherever a product is formed.
  \<^item> A thrown exception is the left summand of a result \<open>error + 'a\<close>.
  \<^item> \<open>std::size_t\<close> and \<open>std::uint64_t\<close> positions are natural numbers (no file reaches
    \<open>2 ^ 64\<close> bytes).
\<close>

datatype error =
    Invalid_argument
  | Runtime_error
  | Out_of_range
  | Length_error
  | Undefined_behaviour

text \<open>The value of a 32-bit \<open>int\<close> that holds the low 32 bits of \<open>x\<close>, and the three
  arithmetic operations of \<open>int\<close>.\<close>

definition int32 :: "int \<Rightarrow> int" where
  "int32 x = (x + 2147483648) mod 4294967296 - 2147483648"

definition int_add :: "int \<Rightarrow> int \<Rightarrow> int" where
  "int_add a b = int32 (a + b)"

definition int_sub :: "int \<Rightarrow> int \<Rightarrow> int" where
  "int_sub a b = int32 (a - b)"

definition int_mul :: "int \<Rightarrow> int \<Rightarrow> int" where
  "int_mul a b = int32 (a * b)"

section \<open>EGrid: index arithmetic\<close>

text \<open>\<open>nijk\<close>: the grid dimensions \<open>(nx, ny, nz)\<close> read from GRIDHEAD.\<close>

type_synonym nijk = "int \<times> int \<times> int"

text \<open>\<^verbatim>\<open>int EGrid::global_index(int i, int j, int k) const\<close>\<close>

definition global_index :: "nijk \<Rightarrow> int \<Rightarrow> int \<Rightarrow> int \<Rightarrow> error + int" where
  "global_index d i j k =
     (case d of (nx, ny, nz) \<Rightarrow>
        if i < 0 \<or> i \<ge> nx \<or> j < 0 \<or> j \<ge> ny \<or> k < 0 \<or> k \<ge> nz
        then Inl Invalid_argument
        else Inr (int_add (int_add i (int_mul j nx)) (int_mul (int_mul k nx) ny)))"

text \<open>\<^verbatim>\<open>std::array<int, 3> EGrid::ijk_from_global_index(int globInd) const\<close>.
  Past the range check the 32-bit product \<open>nx * ny * nz\<close> is positive, so neither divisor
  is zero, and the dividends are not negative.\<close>

definition ijk_from_global_index :: "nijk \<Rightarrow> int \<Rightarrow> error + (int \<times> int \<times> int)" where
  "ijk_from_global_index d globInd =
     (case d of (nx, ny, nz) \<Rightarrow>
        if globInd < 0 \<or> globInd \<ge> int_mul (int_mul nx ny) nz
        then Inl Invalid_argument
        else
          let result2 = globInd sdiv (int_mul nx ny);
              rest = globInd smod (int_mul nx ny);
              result1 = rest sdiv nx;
              result0 = rest smod nx
          in Inr (result0, result1, result2))"

section \<open>EGrid: the active-cell maps\<close>





section \<open>EGrid: cell corners\<close>

text \<open>\<open>operator[]\<close> of \<open>std::vector\<close>: an index outside the vector is undefined behaviour.\<close>

definition vec_at :: "'a list \<Rightarrow> int \<Rightarrow> error + 'a" where
  "vec_at xs i =
     (if 0 \<le> i \<and> i < int (length xs) then Inr (xs ! nat i) else Inl Undefined_behaviour)"

definition ebind :: "error + 'a \<Rightarrow> ('a \<Rightarrow> error + 'b) \<Rightarrow> error + 'b" where
  "ebind r f = (case r of Inl e \<Rightarrow> Inl e | Inr x \<Rightarrow> f x)"

fun sequence_err :: "(error + 'a) list \<Rightarrow> error + 'a list" where
  "sequence_err [] = Inr []"
| "sequence_err (r # rs) =
     ebind r (\<lambda>x. ebind (sequence_err rs) (\<lambda>xs. Inr (x # xs)))"

subsection \<open>The arithmetic of \<open>double\<close>\<close>

text \<open>
  COORD and ZCORN are arrays of \<open>float\<close>; \<open>getCellCorners\<close> computes in \<open>double\<close>. A finite
  \<open>float\<close> or \<open>double\<close> is the real number it stands for, and the conversion of a \<open>float\<close>
  to \<open>double\<close> changes nothing. Each arithmetic operation of \<open>double\<close> gives the exact result
  rounded to the nearest \<open>double\<close>, ties to the even significand (IEEE 754 binary64, the
  expressions are not contracted into fused operations): a \<open>double\<close> is an integer of less
  than 53 bits times a power of two not below \<open>2^-1074\<close>. Infinities and NaN are not
  represented; with finite \<open>float\<close> entries no operation of the interpolation comes near
  the largest \<open>double\<close>.
\<close>

text \<open>The integer nearest to \<open>x\<close>, the even one of two that are equally near.\<close>

definition round_half_even :: "real \<Rightarrow> int" where
  "round_half_even x =
     (let f = \<lfloor>x\<rfloor> in
      if x - of_int f < 1 / 2 then f
      else if 1 / 2 < x - of_int f then f + 1
      else if even f then f else f + 1)"

text \<open>The binary exponent of \<open>a > 0\<close>, that is \<open>e\<close> with \<open>2^e \<le> a < 2^(e+1)\<close>, found by at most
  \<open>n\<close> halvings or doublings.\<close>

fun bin_exp :: "nat \<Rightarrow> real \<Rightarrow> int" where
  "bin_exp 0 a = 0"
| "bin_exp (Suc n) a =
     (if 2 \<le> a then bin_exp n (a / 2) + 1
      else if a < 1 then bin_exp n (2 * a) - 1
      else 0)"

text \<open>The exponent of \<open>x\<close> as a \<open>double\<close>: not below \<open>-1022\<close>, the exponent of the subnormal
  numbers.\<close>

definition double_exp :: "real \<Rightarrow> int" where
  "double_exp x = max (bin_exp 1100 \<bar>x\<bar>) (- 1022)"

text \<open>The \<open>double\<close> nearest to \<open>x\<close>: \<open>x\<close> rounded to a multiple of \<open>2^(e - 52)\<close>.\<close>

definition round_double :: "real \<Rightarrow> real" where
  "round_double x =
     (let q = double_exp x - 52
      in of_int (round_half_even (x / 2 powi q)) * 2 powi q)"

text \<open>\<open>v\<close> is zero or lies in the range of the normal numbers of \<open>double\<close>: rounding it neither
  underflows nor overflows.\<close>

definition in_double_range :: "real \<Rightarrow> bool" where
  "in_double_range v \<longleftrightarrow> v = 0 \<or> 2 powi (- 1022) \<le> \<bar>v\<bar> \<and> \<bar>v\<bar> < 2 powi 1024"

definition double_add :: "real \<Rightarrow> real \<Rightarrow> real" where
  "double_add a b = round_double (a + b)"

definition double_sub :: "real \<Rightarrow> real \<Rightarrow> real" where
  "double_sub a b = round_double (a - b)"

definition double_mul :: "real \<Rightarrow> real \<Rightarrow> real" where
  "double_mul a b = round_double (a * b)"

definition double_div :: "real \<Rightarrow> real \<Rightarrow> real" where
  "double_div a b = round_double (a / b)"

text \<open>\<open>M_PI\<close>, the \<open>double\<close> nearest to \<open>\<pi>\<close>, and the functions \<open>cos\<close> and \<open>sin\<close> of the C library,
  whose results are not fixed by a standard.\<close>

definition M_PI :: real where
  "M_PI = 884279719003555 / 281474976710656"

record libm =
  libm_cos :: "real \<Rightarrow> real"
  libm_sin :: "real \<Rightarrow> real"

subsection \<open>\<open>getCellCorners\<close>\<close>

text \<open>The members of \<open>EGrid\<close> that \<open>getCellCorners\<close> reads, COORD and ZCORN being loaded.\<close>

record egrid =
  nijk :: nijk
  res :: "int \<rightharpoonup> int"
  coord_array :: "real list"
  zcorn_array :: "real list"
  m_radial :: bool

text \<open>\<open>pind\<close>: the positions of the four pillars of cell \<open>(i, j, k)\<close> in COORD, given
  \<open>res_shift\<close>.\<close>

definition pind :: "nijk \<Rightarrow> int \<Rightarrow> int \<times> int \<times> int \<Rightarrow> int list" where
  "pind d res_shift ijk =
     (case d of (nx, ny, nz) \<Rightarrow> case ijk of (i, j, k) \<Rightarrow>
        let p0 = int_add (int_add res_shift (int_mul (int_mul j (int_add nx 1)) 6)) (int_mul i 6);
            p1 = int_add p0 6;
            p2 = int_add p0 (int_mul (int_add nx 1) 6);
            p3 = int_add p2 6
        in [p0, p1, p2, p3])"

text \<open>\<open>zind\<close>: the positions of the eight corner depths of cell \<open>(i, j, k)\<close> in ZCORN.\<close>

definition zind :: "nijk \<Rightarrow> int \<times> int \<times> int \<Rightarrow> int list" where
  "zind d ijk =
     (case d of (nx, ny, nz) \<Rightarrow> case ijk of (i, j, k) \<Rightarrow>
        let z0 = int_add (int_add (int_mul (int_mul (int_mul k nx) ny) 8)
                            (int_mul (int_mul j nx) 4))
                   (int_mul i 2);
            z1 = int_add z0 1;
            z2 = int_add z0 (int_mul nx 2);
            z3 = int_add z2 1;
            top = [z0, z1, z2, z3]
        in top @ map (\<lambda>z. int_add z (int_mul (int_mul nx ny) 4)) top)"

text \<open>The two samples \<open>(xt, yt, zt)\<close> and \<open>(xb, yb, zb)\<close> of the pillar stored at position
  \<open>p\<close> of COORD (the first statements of the loop body over \<open>n\<close>).\<close>

definition pillar_samples ::
    "libm \<Rightarrow> egrid \<Rightarrow> int \<Rightarrow> error + ((real \<times> real \<times> real) \<times> (real \<times> real \<times> real))" where
  "pillar_samples m g p =
     ebind (vec_at (coord_array g) (int_add p 2)) (\<lambda>zt.
     ebind (vec_at (coord_array g) (int_add p 5)) (\<lambda>zb.
     ebind (vec_at (coord_array g) p) (\<lambda>c0.
     ebind (vec_at (coord_array g) (int_add p 1)) (\<lambda>c1.
     ebind (vec_at (coord_array g) (int_add p 3)) (\<lambda>c3.
     ebind (vec_at (coord_array g) (int_add p 4)) (\<lambda>c4.
       if m_radial g
       then Inr ((double_mul c0 (libm_cos m (double_mul (double_div c1 180) M_PI)),
                  double_mul c0 (libm_sin m (double_mul (double_div c1 180) M_PI)), zt),
                 (double_mul c3 (libm_cos m (double_mul (double_div c4 180) M_PI)),
                  double_mul c3 (libm_sin m (double_mul (double_div c4 180) M_PI)), zb))
       else Inr ((c0, c1, zt), (c3, c4, zb))))))))"

text \<open>The interpolation at the end of the loop body: the point of the pillar at depth \<open>z\<close>,
  \<open>xt + (xb-xt) / (zt-zb) * (zt - z)\<close> and the same for \<open>y\<close>, operation by operation.\<close>

definition pillar_xy ::
    "(real \<times> real \<times> real) \<times> (real \<times> real \<times> real) \<Rightarrow> real \<Rightarrow> real \<times> real" where
  "pillar_xy s z =
     (case s of ((xt, yt, zt), (xb, yb, zb)) \<Rightarrow>
        if zt = zb then (xt, yt)
        else (double_add xt
                (double_mul (double_div (double_sub xb xt) (double_sub zt zb)) (double_sub zt z)),
              double_add yt
                (double_mul (double_div (double_sub yb yt) (double_sub zt zb)) (double_sub zt z))))"

text \<open>\<^verbatim>\<open>void EGrid::getCellCorners(const std::array<int, 3>& ijk, X, Y, Z)\<close>: the result is
  the three arrays \<open>(X, Y, Z)\<close> of eight values each. \<open>res.at\<close> throws \<open>std::out_of_range\<close>
  for a layer without reservoir.\<close>

definition getCellCorners ::
    "libm \<Rightarrow> egrid \<Rightarrow> int \<times> int \<times> int \<Rightarrow> error + (real list \<times> real list \<times> real list)" where
  "getCellCorners m g ijk =
     (case nijk g of (nx, ny, nz) \<Rightarrow> case ijk of (i, j, k) \<Rightarrow>
        (case res g k of
           None \<Rightarrow> Inl Out_of_range
         | Some r \<Rightarrow>
             let res_shift = int_mul (int_mul (int_mul r (int_add nx 1)) (int_add ny 1)) 6;
                 ps = pind (nijk g) res_shift ijk;
                 zs = zind (nijk g) ijk
             in ebind (sequence_err (map (vec_at (zcorn_array g)) zs)) (\<lambda>Z.
                ebind (sequence_err (map (pillar_samples m g) ps)) (\<lambda>S.
                  let top = map (\<lambda>n. pillar_xy (S ! n) (Z ! n)) [0 ..< 4];
                      bot = map (\<lambda>n. pillar_xy (S ! n) (Z ! (n + 4))) [0 ..< 4]
                  in Inr (map fst top @ map fst bot, map snd top @ map snd bot, Z)))))"

text \<open>A grid of one cell: the pillar \<open>(0, 0, 0, 10, 0, 100)\<close>, a degenerate pillar with
  \<open>zt = zb = 0\<close>, and two more; the top corners at depth 50, the bottom corners at 100.\<close>

definition example_pillar_grid :: egrid where
  "example_pillar_grid =
     \<lparr>nijk = (1, 1, 1), res = [0 \<mapsto> 0],
      coord_array = [0, 0, 0, 10, 0, 100,   0, 0, 0, 7, 7, 0,
                     0, 1, 0, 10, 1, 100,   1, 1, 0, 1, 1, 100],
      zcorn_array = [50, 50, 50, 50, 100, 100, 100, 100],
      m_radial = False\<rparr>"

text \<open>A grid of one cell whose four pillars all run from \<open>(0, 0, 0)\<close> to \<open>(1, 3, 49)\<close>, with
  all corners at depth 49, and a C library whose functions are not called on it.\<close>

definition example_slanted_grid :: egrid where
  "example_slanted_grid =
     \<lparr>nijk = (1, 1, 1), res = [0 \<mapsto> 0],
      coord_array = [0, 0, 0, 1, 3, 49,   0, 0, 0, 1, 3, 49,
                     0, 0, 0, 1, 3, 49,   0, 0, 0, 1, 3, 49],
      zcorn_array = [49, 49, 49, 49, 49, 49, 49, 49],
      m_radial = False\<rparr>"

definition example_libm :: libm where
  "example_libm = \<lparr>libm_cos = (\<lambda>x. 1), libm_sin = (\<lambda>x. 0)\<rparr>"
section \<open>ESmry: key strings\<close>

text \<open>\<open>fmt::format("{}", n)\<close> for an \<open>int\<close>: the decimal digits, with a minus sign for a
  negative number.\<close>

fun fmt_nat :: "nat \<Rightarrow> string" where
  "fmt_nat n =
     (if n < 10 then [''0123456789'' ! n]
      else fmt_nat (n div 10) @ [''0123456789'' ! (n mod 10)])"

declare fmt_nat.simps [simp del]

definition fmt_int :: "int \<Rightarrow> string" where
  "fmt_int n = (if n < 0 then CHR ''-'' # fmt_nat (nat (- n)) else fmt_nat (nat n))"

text \<open>\<open>std::string::operator[]\<close>: position \<open>size()\<close> holds the terminating null character.\<close>

definition str_at :: "string \<Rightarrow> nat \<Rightarrow> char" where
  "str_at s i = (if i < length s then s ! i else CHR 0x00)"

text \<open>\<open>std::string::substr(pos, n)\<close> throws \<open>std::out_of_range\<close> when \<open>pos > size()\<close>.\<close>

definition substr :: "string \<Rightarrow> nat \<Rightarrow> nat \<Rightarrow> error + string" where
  "substr s pos n = (if pos > length s then Inl Out_of_range else Inr (take n (drop pos s)))"

text \<open>\<^verbatim>\<open>bool is_well_completion(const std::string& keyword)\<close>: a full match of the regular
  expression \<^verbatim>\<open>W[OGWLV][PIGOLCF][RT]L([0-9_]{2}[0-9])?\<close>.\<close>

fun is_well_completion :: "string \<Rightarrow> bool" where
  "is_well_completion [w, a, b, c, l] =
     (w = CHR ''W'' \<and> a \<in> set ''OGWLV'' \<and> b \<in> set ''PIGOLCF'' \<and> c \<in> set ''RT'' \<and> l = CHR ''L'')"
| "is_well_completion [w, a, b, c, l, x, y, z] =
     (w = CHR ''W'' \<and> a \<in> set ''OGWLV'' \<and> b \<in> set ''PIGOLCF'' \<and> c \<in> set ''RT'' \<and> l = CHR ''L''
      \<and> x \<in> set ''0123456789_'' \<and> y \<in> set ''0123456789_'' \<and> z \<in> set ''0123456789'')"
| "is_well_completion _ = False"

text \<open>
  Modelled from the spec: \<open>splitSummaryNumber\<close> is declared in \<^verbatim>\<open>EclUtil.hpp\<close>, which is not
  among the sources. The specification (4.4, and the comment \<^verbatim>\<open>NUMS = R1 + 32768*(R2 + 10)\<close>
  at the call) gives the packing \<open>num = r1 + 32768 * (r2 + 10)\<close>; the function inverts it.
\<close>

definition splitSummaryNumber :: "int \<Rightarrow> int \<times> int" where
  "splitSummaryNumber n = (n smod 32768, n sdiv 32768 - 10)"

text \<open>\<^verbatim>\<open>void ESmry::ijk_from_global_index(int glob, int &i, int &j, int &k) const\<close>, with the
  members \<open>nI\<close> and \<open>nJ\<close> as arguments. Division by zero is undefined behaviour.\<close>

definition esmry_ijk_from_global_index :: "int \<Rightarrow> int \<Rightarrow> int \<Rightarrow> error + (int \<times> int \<times> int)" where
  "esmry_ijk_from_global_index nI nJ glob =
     (if nI = 0 \<or> nJ = 0 then Inl Undefined_behaviour
      else
        let glob1 = glob - 1;
            i = 1 + (glob1 smod nI);
            glob2 = glob1 sdiv nI;
            j = 1 + (glob2 smod nJ);
            k = 1 + (glob2 sdiv nJ)
        in Inr (i, j, k))"

text \<open>\<open>Opm::EclIO::lgr_info\<close>: the name of a local grid and a cell in it.\<close>

record lgr_info =
  lgr_name :: string
  lgr_ijk :: "int \<times> int \<times> int"

definition no_wgname :: string where
  "no_wgname = '':+:+:+:+''"

text \<open>
  \<^verbatim>\<open>std::string ESmry::makeKeyString(keywordArg, wgname, num, lgr) const\<close>. The members
  \<open>nI\<close>, \<open>nJ\<close> are arguments; so is \<open>SummaryNode::miscellaneous_exception\<close>
  (\<open>misc_exception\<close>), whose definition is not among the sources.
\<close>

definition makeKeyString ::
    "(string \<Rightarrow> bool) \<Rightarrow> int \<Rightarrow> int \<Rightarrow> string \<Rightarrow> string \<Rightarrow> int \<Rightarrow> lgr_info option
       \<Rightarrow> error + string" where
  "makeKeyString misc_exception nI nJ keywordArg wgname num lgr =
     (let first = str_at keywordArg 0 in
      if first = CHR ''A'' then
        (if num \<le> 0 then Inr ''''
         else Inr (keywordArg @ '':'' @ fmt_int num))
      else if first = CHR ''B'' then
        (if num \<le> 0 then Inr ''''
         else ebind (esmry_ijk_from_global_index nI nJ num) (\<lambda>(i, j, k).
                Inr (keywordArg @ '':'' @ fmt_int i @ '','' @ fmt_int j @ '','' @ fmt_int k)))
      else if first = CHR ''C'' then
        (if num \<le> 0 then Inr ''''
         else ebind (esmry_ijk_from_global_index nI nJ num) (\<lambda>(i, j, k).
                Inr (keywordArg @ '':'' @ wgname @ '':''
                       @ fmt_int i @ '','' @ fmt_int j @ '','' @ fmt_int k)))
      else if first = CHR ''G'' then
        (if wgname = no_wgname then Inr ''''
         else Inr (keywordArg @ '':'' @ wgname))
      else if first = CHR ''L'' then
        (case lgr of
           None \<Rightarrow> Inl Invalid_argument
         | Some lgr' \<Rightarrow>
             (case lgr_ijk lgr' of (li, lj, lk) \<Rightarrow>
                if str_at keywordArg 1 = CHR ''B'' then
                  Inr (keywordArg @ '':'' @ lgr_name lgr' @ '':''
                         @ fmt_int li @ '','' @ fmt_int lj @ '','' @ fmt_int lk)
                else if str_at keywordArg 1 = CHR ''C'' then
                  Inr (keywordArg @ '':'' @ lgr_name lgr' @ '':'' @ wgname @ '':''
                         @ fmt_int li @ '','' @ fmt_int lj @ '','' @ fmt_int lk)
                else if str_at keywordArg 1 = CHR ''W'' then
                  Inr (keywordArg @ '':'' @ lgr_name lgr' @ '':'' @ wgname)
                else Inr keywordArg))
      else if first = CHR ''R'' then
        (if num \<le> 0 then Inr ''''
         else ebind (substr keywordArg 2 2) (\<lambda>str34.
              ebind (substr keywordArg 3 2) (\<lambda>str45.
                if keywordArg = ''RORFR'' then
                  Inr (keywordArg @ '':'' @ fmt_int num)
                else if str34 = ''FR'' \<or> str34 = ''FT'' \<or> str45 = ''FR'' \<or> str45 = ''FT'' then
                  (case splitSummaryNumber num of (r1, r2) \<Rightarrow>
                     Inr (keywordArg @ '':'' @ fmt_int r1 @ ''-'' @ fmt_int r2))
                else Inr (keywordArg @ '':'' @ fmt_int num))))
      else if first = CHR ''S'' then
        (if misc_exception keywordArg then Inr keywordArg
         else if wgname = no_wgname then Inr ''''
         else if num \<le> 0 then Inr ''''
         else Inr (keywordArg @ '':'' @ wgname @ '':'' @ fmt_int num))
      else if first = CHR ''W'' then
        (if wgname = no_wgname then Inr ''''
         else if is_well_completion keywordArg then
           Inr (keywordArg @ '':'' @ wgname @ '':'' @ fmt_int num)
         else Inr (keywordArg @ '':'' @ wgname))
      else Inr keywordArg)"

section \<open>ESmry: the file name given to the constructor\<close>

text \<open>
  \<open>std::filesystem::path\<close> (C++17, generic format with separator \<open>/\<close>). A path is kept as
  its directory part, up to and including the last separator, and its \<open>filename()\<close>; the
  pathname is the concatenation of the two. \<open>extension()\<close> and \<open>stem()\<close> follow the
  standard: \<open>.\<close> and \<open>..\<close> have no extension, a leading period does not start one, and
  otherwise the extension starts at the last period of the filename.
\<close>

record path =
  path_dir :: string
  path_file :: string

definition path_of :: "string \<Rightarrow> path" where
  "path_of s =
     (let f = rev (takeWhile (\<lambda>c. c \<noteq> CHR ''/'') (rev s))
      in \<lparr>path_dir = take (length s - length f) s, path_file = f\<rparr>)"

definition path_string :: "path \<Rightarrow> string" where
  "path_string p = path_dir p @ path_file p"

definition file_extension :: "string \<Rightarrow> string" where
  "file_extension f =
     (let e = rev (takeWhile (\<lambda>c. c \<noteq> CHR ''.'') (rev f)) in
      if f = ''.'' \<or> f = ''..'' then ''''
      else if CHR ''.'' \<notin> set f then ''''
      else if length e + 1 = length f then ''''
      else CHR ''.'' # e)"

definition extension :: "path \<Rightarrow> string" where
  "extension p = file_extension (path_file p)"


text \<open>\<open>operator+=\<close>: the string is appended to the pathname.\<close>

definition path_concat :: "path \<Rightarrow> string \<Rightarrow> path" where
  "path_concat p s = path_of (path_string p @ s)"

text \<open>
  The beginning of \<^verbatim>\<open>ESmry::ESmry(const std::string& filename, bool loadBaseRunData)\<close>, up
  to \<open>formattedFiles.push_back(formatted)\<close>: no file has been touched yet.
\<close>

record esmry_head =
  head_inputFileName :: path
  head_fromSingleRun :: bool
  head_formattedFiles :: "bool list"

definition ESmry_head :: "string \<Rightarrow> bool \<Rightarrow> error + esmry_head" where
  "ESmry_head filename loadBaseRunData =
     (let inputFileName0 = path_of filename;
          inputFileName =
            (if extension inputFileName0 = '''' then path_concat inputFileName0 ''.SMSPEC''
             else inputFileName0)
      in if extension inputFileName \<noteq> ''.SMSPEC'' \<and> extension inputFileName \<noteq> ''.FSMSPEC''
         then Inl Invalid_argument
         else
           let formatted = (if extension inputFileName = ''.SMSPEC'' then False else True)
           in Inr \<lparr>head_inputFileName = inputFileName,
                    head_fromSingleRun = (\<not> loadBaseRunData),
                    head_formattedFiles = [formatted]\<rparr>)"

text \<open>The constructor: \<open>rest\<close> stands for everything after the check of the extension, where
  the SMSPEC file and the result files are opened and read.\<close>

definition ESmry_ctor :: "(esmry_head \<Rightarrow> error + 'a) \<Rightarrow> string \<Rightarrow> bool \<Rightarrow> error + 'a" where
  "ESmry_ctor rest filename loadBaseRunData = ebind (ESmry_head filename loadBaseRunData) rest"






section \<open>ESmry: files, constants and the object\<close>

type_synonym byte = "8 word"

text \<open>A \<open>float\<close> is kept as its 32-bit pattern: the readers move and byte-swap floats, they
  never compute with them.\<close>

type_synonym f32 = "32 word"

text \<open>
  Modelled from the spec: the constants of \<^verbatim>\<open>EclIOdata.hpp\<close>, which is not among the sources.
  The specification (4.1 and 6) gives blocks of at most 1000 INTE or REAL elements, elements
  of 4 bytes, and formatted REAL data in 4 columns of width 17. \<open>MaxBlockSizeReal\<close> is the
  size in bytes of a full block of reals. (The sources divide \<open>MaxBlockSizeReal\<close> by
  \<open>sizeOfReal\<close> to obtain the number of elements of a block, and \<open>get_zcorn_from_disk\<close>
  uses the literal 1000 side by side with that quotient.)
\<close>

definition sizeOfInte :: nat where "sizeOfInte = 4"
definition sizeOfReal :: nat where "sizeOfReal = 4"
definition MaxNumBlockReal :: nat where "MaxNumBlockReal = 1000"
definition MaxBlockSizeReal :: nat where "MaxBlockSizeReal = sizeOfReal * MaxNumBlockReal"
definition numColumnsReal :: nat where "numColumnsReal = 4"
definition columnWidthReal :: nat where "columnWidthReal = 17"

text \<open>Four bytes read into an \<open>int\<close> or \<open>float\<close> variable on a little-endian host.\<close>

definition host_word32 :: "byte list \<Rightarrow> 32 word" where
  "host_word32 bs =
     of_nat (unat (bs ! 0) + 256 * unat (bs ! 1) + 65536 * unat (bs ! 2) + 16777216 * unat (bs ! 3))"

text \<open>Modelled from the spec: \<open>flipEndianInt\<close> and \<open>flipEndianFloat\<close> of \<^verbatim>\<open>EclUtil.hpp\<close> (not
  among the sources) reverse the four bytes of their argument (specification 4.1).\<close>

definition flipEndianInt :: "32 word \<Rightarrow> 32 word" where
  "flipEndianInt w =
     (let n = unat w
      in of_nat ((n mod 256) * 16777216 + (n div 256 mod 256) * 65536
                 + (n div 65536 mod 256) * 256 + n div 16777216))"

definition flipEndianFloat :: "f32 \<Rightarrow> f32" where
  "flipEndianFloat w = flipEndianInt w"

text \<open>\<open>std::nanf("")\<close>, the quiet NaN, and the constant \<open>-1e20f\<close>.\<close>

definition nanf :: f32 where "nanf = 0x7FC00000"
definition invalid_value :: f32 where "invalid_value = 0xE0AD78EC"

text \<open>
  The file system maps a name to the bytes of the file. An opened \<open>std::fstream\<close> is the
  content of its file, or \<open>None\<close> when the file could not be opened; the position is passed
  to each read. A \<open>read\<close> into a scalar that does not get all its bytes leaves the scalar
  indeterminate, and the code goes on to use it: undefined behaviour. A \<open>read\<close> into a
  zero-initialised buffer leaves zeros where no byte arrived.
\<close>

type_synonym file_system = "string \<rightharpoonup> byte list"
type_synonym stream = "byte list option"

definition read_scalar :: "stream \<Rightarrow> nat \<Rightarrow> nat \<Rightarrow> error + byte list" where
  "read_scalar fileH pos n =
     (case fileH of
        None \<Rightarrow> Inl Undefined_behaviour
      | Some f \<Rightarrow> if pos + n \<le> length f then Inr (take n (drop pos f))
                  else Inl Undefined_behaviour)"

definition read_buffer :: "stream \<Rightarrow> nat \<Rightarrow> nat \<Rightarrow> byte list" where
  "read_buffer fileH pos n =
     (case fileH of
        None \<Rightarrow> replicate n 0
      | Some f \<Rightarrow> take n (drop pos f) @ replicate (n - length (take n (drop pos f))) 0)"

definition vec_nth :: "'a list \<Rightarrow> nat \<Rightarrow> error + 'a" where
  "vec_nth xs i = (if i < length xs then Inr (xs ! i) else Inl Undefined_behaviour)"

text \<open>The array types that occur in the summary files.\<close>

datatype eclArrType = INTE | REAL

text \<open>
  The functions of \<^verbatim>\<open>EclUtil.hpp\<close> that the summary reader calls and whose definitions are
  not among the sources, together with \<open>std::strtof\<close>: they are parameters of the embedding.
  \<open>readBinaryInteArray fileH pos n\<close> is \<open>readBinaryArray<int,int>(fileH, n, INTE,
  flipEndianInt, sizeOfInte)\<close> with the stream at \<open>pos\<close>; \<open>strtof\<close> gets the characters from
  its argument pointer onwards.
\<close>

record ecl_util =
  readBinaryInteArray :: "stream \<Rightarrow> nat \<Rightarrow> int \<Rightarrow> error + int list"
  sizeOnDiskFormatted :: "int \<Rightarrow> eclArrType \<Rightarrow> int \<Rightarrow> nat"
  readFormattedInteArray :: "string \<Rightarrow> int \<Rightarrow> nat \<Rightarrow> error + int list"
  strtof :: "string \<Rightarrow> f32"
  fileExists :: "string \<Rightarrow> bool"

text \<open>
  The members of \<open>ESmry\<close> that the functions below use. A \<open>TimeStepEntry\<close> is
  \<open>(specInd, dataFileIndex, position)\<close>; indices that the constructor only produces
  non-negative are natural numbers.
\<close>

type_synonym TimeStepEntry = "nat \<times> nat \<times> nat"

record esmry =
  inputFileName :: path
  fromSingleRun :: bool
  formattedFiles :: "bool list"
  dataFileList :: "string list"
  timeStepList :: "TimeStepEntry list"
  miniStepList :: "TimeStepEntry list"
  seqIndex :: "int list"
  mini_steps :: "int list"
  keyword :: "string list"
  keyword_index :: "string \<rightharpoonup> nat"
  kwunits :: "string \<rightharpoonup> string"
  arrayPos :: "(nat \<rightharpoonup> nat) list"
  keywordListSpecFile :: "string list list"
  nParamsSpecFile :: "int list"
  vectorData :: "f32 list list"
  vectorLoaded :: "bool list"
  nVect :: nat
  start_vect :: "int list"
  restart_info :: "string \<times> int"

text \<open>\<open>fileH.open(dataFileList[dataFileIndex], mode)\<close> with the mode chosen by
  \<open>formattedFiles[specInd]\<close>.\<close>

definition open_data_file :: "file_system \<Rightarrow> esmry \<Rightarrow> nat \<Rightarrow> nat \<Rightarrow> error + stream" where
  "open_data_file fs s specInd dataFileIndex =
     ebind (vec_nth (formattedFiles s) specInd) (\<lambda>formatted.
     ebind (vec_nth (dataFileList s) dataFileIndex) (\<lambda>name.
       Inr (fs name)))"

section \<open>ESmry: ministeps\<close>

definition chars_of :: "byte list \<Rightarrow> string" where
  "chars_of bs = map (\<lambda>b. char_of (unat b)) bs"

text \<open>\<^verbatim>\<open>int ESmry::read_ministep_formatted(std::fstream& fileH)\<close>, the stream being at \<open>pos\<close>.\<close>

definition read_ministep_formatted :: "ecl_util \<Rightarrow> stream \<Rightarrow> nat \<Rightarrow> error + int" where
  "read_ministep_formatted u fileH pos =
     (let size = sizeOnDiskFormatted u 1 INTE 4 + 1;
          buffer = read_buffer fileH pos size;
          fileStr = chars_of buffer
      in ebind (readFormattedInteArray u fileStr 1 0) (\<lambda>ministep_vect.
           vec_nth ministep_vect 0))"

text \<open>
  The loop of \<^verbatim>\<open>void ESmry::read_ministeps_from_disk()\<close> over \<open>miniStepList\<close>; the arguments
  after the list are the loop variables \<open>specInd\<close>, \<open>dataFileIndex\<close>, \<open>fileH\<close> and the member
  \<open>mini_steps\<close>.
\<close>

fun read_ministeps_loop ::
    "ecl_util \<Rightarrow> file_system \<Rightarrow> esmry \<Rightarrow> TimeStepEntry list \<Rightarrow> nat \<Rightarrow> nat \<Rightarrow> stream \<Rightarrow> int list
       \<Rightarrow> error + int list" where
  "read_ministeps_loop u fs s [] specInd dataFileIndex fileH ms = Inr ms"
| "read_ministeps_loop u fs s (step # steps) specInd dataFileIndex fileH ms =
     (case step of (stepSpec, stepFile, stepFilePos) \<Rightarrow>
        ebind (if dataFileIndex \<noteq> stepFile
               then ebind (open_data_file fs s stepSpec stepFile) (\<lambda>h. Inr (stepSpec, stepFile, h))
               else Inr (specInd, dataFileIndex, fileH)) (\<lambda>(specInd', dataFileIndex', fileH').
        ebind (vec_nth (formattedFiles s) specInd') (\<lambda>formatted.
        ebind (if formatted then read_ministep_formatted u fileH' stepFilePos
               else ebind (readBinaryInteArray u fileH' stepFilePos 1) (\<lambda>ministep_vect.
                      vec_nth ministep_vect 0)) (\<lambda>ministep_value.
          read_ministeps_loop u fs s steps specInd' dataFileIndex' fileH'
            (ms @ [ministep_value])))))"

text \<open>\<^verbatim>\<open>void ESmry::read_ministeps_from_disk()\<close>\<close>

definition read_ministeps_from_disk :: "ecl_util \<Rightarrow> file_system \<Rightarrow> esmry \<Rightarrow> error + esmry" where
  "read_ministeps_from_disk u fs s =
     (case miniStepList s of
        [] \<Rightarrow> Inr s
      | (specInd, dataFileIndex, pos0) # rest \<Rightarrow>
          ebind (open_data_file fs s specInd dataFileIndex) (\<lambda>fileH.
          ebind (read_ministeps_loop u fs s (miniStepList s) specInd dataFileIndex fileH
                   (mini_steps s)) (\<lambda>ms.
            Inr (s\<lparr>mini_steps := ms\<rparr>))))"

text \<open>The loop of \<^verbatim>\<open>bool ESmry::all_steps_available()\<close>, from \<open>n\<close> on; the difference of
  two ministeps is an \<open>int\<close>.\<close>

function all_steps_loop :: "int list \<Rightarrow> nat \<Rightarrow> bool" where
  "all_steps_loop ms n =
     (if n < length ms
      then (if int_sub (ms ! n) (ms ! (n - 1)) > 1 then False else all_steps_loop ms (Suc n))
      else True)"
  by pat_completeness auto
termination
  by (relation "measure (\<lambda>(ms, n). length ms - n)") auto

declare all_steps_loop.simps [simp del]

text \<open>\<^verbatim>\<open>bool ESmry::all_steps_available()\<close>: the result and the object afterwards.\<close>

definition all_steps_available ::
    "ecl_util \<Rightarrow> file_system \<Rightarrow> esmry \<Rightarrow> error + (bool \<times> esmry)" where
  "all_steps_available u fs s =
     ebind (if length (mini_steps s) = 0 then read_ministeps_from_disk u fs s else Inr s) (\<lambda>s'.
       Inr (all_steps_loop (mini_steps s') 1, s'))"

section \<open>ESmry: loading vectors\<close>

text \<open>\<open>vectorData[ind].push_back(v)\<close>\<close>

definition push_value :: "f32 list list \<Rightarrow> nat \<Rightarrow> f32 \<Rightarrow> error + f32 list list" where
  "push_value vd ind v =
     (if ind < length vd then Inr (vd[ind := vd ! ind @ [v]]) else Inl Undefined_behaviour)"

text \<open>\<^verbatim>\<open>bool ESmry::hasKey(const std::string& key) const\<close>\<close>

definition hasKey :: "esmry \<Rightarrow> string \<Rightarrow> bool" where
  "hasKey s key \<longleftrightarrow> key \<in> set (keyword s)"

subsection \<open>One key at a time: \<open>loadData(vectList)\<close>\<close>

text \<open>The first loop of \<^verbatim>\<open>void ESmry::loadData(const std::vector<std::string>& vectList) const\<close>,
  which collects \<open>keywIndVect\<close>.\<close>

fun keywIndVect_loop :: "esmry \<Rightarrow> string list \<Rightarrow> nat list \<Rightarrow> error + nat list" where
  "keywIndVect_loop s [] keywIndVect = Inr keywIndVect"
| "keywIndVect_loop s (key # keys) keywIndVect =
     (if \<not> hasKey s key then Inl Invalid_argument
      else
        (case keyword_index s key of
           None \<Rightarrow> Inl Undefined_behaviour
         | Some ind \<Rightarrow>
             ebind (vec_nth (vectorLoaded s) ind) (\<lambda>loaded.
               keywIndVect_loop s keys
                 (if \<not> loaded then keywIndVect @ [ind] else keywIndVect))))"

text \<open>The size of a block of formatted reals as \<open>loadData(vectList)\<close> computes it.\<close>

definition blockSize_f :: nat where
  "blockSize_f =
     (let nLinesBlock = MaxBlockSizeReal div numColumnsReal
      in MaxNumBlockReal * numColumnsReal * columnWidthReal + nLinesBlock)"

text \<open>The position of column \<open>paramPos\<close> of the PARAMS record that starts at \<open>stepFilePos\<close>,
  in a formatted and in an unformatted file.\<close>

definition elementPos_formatted :: "nat \<Rightarrow> nat \<Rightarrow> nat" where
  "elementPos_formatted stepFilePos paramPos =
     (let nBlocks = paramPos div MaxBlockSizeReal;
          sizeOfLastBlock = paramPos mod MaxBlockSizeReal;
          elementPos = (if nBlocks > 0 then nBlocks * blockSize_f else 0);
          nLines = sizeOfLastBlock div numColumnsReal
      in stepFilePos + elementPos + (sizeOfLastBlock * columnWidthReal + nLines))"

definition elementPos_binary :: "nat \<Rightarrow> nat \<Rightarrow> nat" where
  "elementPos_binary stepFilePos paramPos =
     (let nFullBlocks = paramPos div (MaxBlockSizeReal div sizeOfReal);
          elementPos = (2 * nFullBlocks + 1) * sizeOfInte
      in elementPos + paramPos * sizeOfReal + stepFilePos)"

text \<open>The body of the loop over \<open>keywIndVect\<close>: one value, or NaN, for the key \<open>ind\<close> at the
  step whose PARAMS record starts at \<open>stepFilePos\<close>. In the formatted branch \<open>strtof\<close> gets a
  buffer of \<open>columnWidthReal\<close> characters without terminator.\<close>

definition load_element ::
    "ecl_util \<Rightarrow> esmry \<Rightarrow> stream \<Rightarrow> nat \<Rightarrow> nat \<Rightarrow> nat \<Rightarrow> f32 list list \<Rightarrow> error + f32 list list" where
  "load_element u s fileH specInd stepFilePos ind vd =
     ebind (vec_nth (arrayPos s) specInd) (\<lambda>pos_of.
       case pos_of ind of
         None \<Rightarrow> push_value vd ind nanf
       | Some paramPos \<Rightarrow>
           ebind (vec_nth (formattedFiles s) specInd) (\<lambda>formatted.
             if formatted then
               (let elementPos = elementPos_formatted stepFilePos paramPos;
                    buffer = read_buffer fileH elementPos columnWidthReal
                in push_value vd ind (strtof u (chars_of buffer)))
             else
               (let elementPos = elementPos_binary stepFilePos paramPos
                in ebind (read_scalar fileH elementPos sizeOfReal) (\<lambda>value.
                     push_value vd ind (flipEndianFloat (host_word32 value))))))"

fun load_elements ::
    "ecl_util \<Rightarrow> esmry \<Rightarrow> stream \<Rightarrow> nat \<Rightarrow> nat \<Rightarrow> nat list \<Rightarrow> f32 list list \<Rightarrow> error + f32 list list" where
  "load_elements u s fileH specInd stepFilePos [] vd = Inr vd"
| "load_elements u s fileH specInd stepFilePos (ind # inds) vd =
     ebind (load_element u s fileH specInd stepFilePos ind vd) (\<lambda>vd'.
       load_elements u s fileH specInd stepFilePos inds vd')"

text \<open>The loop over \<open>timeStepList\<close>; \<open>specInd\<close>, \<open>dataFileIndex\<close> and \<open>fileH\<close> are its
  variables.\<close>

fun loadData_steps ::
    "ecl_util \<Rightarrow> file_system \<Rightarrow> esmry \<Rightarrow> nat list \<Rightarrow> TimeStepEntry list \<Rightarrow> nat \<Rightarrow> nat \<Rightarrow> stream
       \<Rightarrow> f32 list list \<Rightarrow> error + f32 list list" where
  "loadData_steps u fs s keywIndVect [] specInd dataFileIndex fileH vd = Inr vd"
| "loadData_steps u fs s keywIndVect (ministep # steps) specInd dataFileIndex fileH vd =
     (case ministep of (stepSpec, stepFile, stepFilePos) \<Rightarrow>
        ebind (if dataFileIndex \<noteq> stepFile
               then ebind (open_data_file fs s stepSpec stepFile) (\<lambda>h. Inr (stepSpec, stepFile, h))
               else Inr (specInd, dataFileIndex, fileH)) (\<lambda>(specInd', dataFileIndex', fileH').
        ebind (load_elements u s fileH' specInd' stepFilePos keywIndVect vd) (\<lambda>vd'.
          loadData_steps u fs s keywIndVect steps specInd' dataFileIndex' fileH' vd')))"

text \<open>\<^verbatim>\<open>void ESmry::loadData(const std::vector<std::string>& vectList) const\<close>. It reads
  \<open>timeStepList[0]\<close> without asking whether there is a step.\<close>

definition loadData_vectList ::
    "ecl_util \<Rightarrow> file_system \<Rightarrow> string list \<Rightarrow> esmry \<Rightarrow> error + esmry" where
  "loadData_vectList u fs vectList s =
     ebind (keywIndVect_loop s vectList []) (\<lambda>keywIndVect.
       case timeStepList s of
         [] \<Rightarrow> Inl Undefined_behaviour
       | (specInd, dataFileIndex, pos0) # rest \<Rightarrow>
           ebind (open_data_file fs s specInd dataFileIndex) (\<lambda>fileH.
           ebind (loadData_steps u fs s keywIndVect (timeStepList s) specInd dataFileIndex fileH
                    (vectorData s)) (\<lambda>vd.
             Inr (s\<lparr>vectorData := vd,
                     vectorLoaded := fold (\<lambda>ind vl. vl[ind := True]) keywIndVect (vectorLoaded s)\<rparr>))))"

subsection \<open>All keys at once: \<open>loadData()\<close>\<close>

text \<open>The loop of \<^verbatim>\<open>std::vector<int> ESmry::makeKeywPosVector(int specInd) const\<close>, from
  \<open>n\<close> on; \<open>has_index\<close> searches the whole of \<open>keywpos\<close>.\<close>

function keywpos_loop ::
    "esmry \<Rightarrow> string list \<Rightarrow> nat \<Rightarrow> nat \<Rightarrow> int list \<Rightarrow> error + int list" where
  "keywpos_loop s kwList nParams n keywpos =
     (if n < nParams then
        (case vec_nth kwList n of
           Inl e \<Rightarrow> Inl e
         | Inr kw \<Rightarrow>
             (case keyword_index s kw of
                None \<Rightarrow> keywpos_loop s kwList nParams (Suc n) keywpos
              | Some ix \<Rightarrow>
                  if int ix \<in> set keywpos
                  then keywpos_loop s kwList nParams (Suc n) keywpos
                  else keywpos_loop s kwList nParams (Suc n) (keywpos[n := int ix])))
      else Inr keywpos)"
  by pat_completeness auto
termination
  by (relation "measure (\<lambda>(s, kwList, nParams, n, keywpos). nParams - n)") auto

declare keywpos_loop.simps [simp del]

text \<open>\<^verbatim>\<open>std::vector<int> ESmry::makeKeywPosVector(int specInd) const\<close>; a vector of negative
  size cannot be built.\<close>

definition makeKeywPosVector :: "esmry \<Rightarrow> nat \<Rightarrow> error + int list" where
  "makeKeywPosVector s specInd =
     ebind (vec_nth (nParamsSpecFile s) specInd) (\<lambda>nParams.
       if nParams < 0 then Inl Length_error
       else
         ebind (vec_nth (keywordListSpecFile s) specInd) (\<lambda>kwList.
           keywpos_loop s kwList (nat nParams) 0 (replicate (nat nParams) (- 1))))"

text \<open>The statement under both \<open>if ((keywpos[p] > -1) && !vectorLoaded[keywpos[p]])\<close>: the
  value \<open>v\<close> goes to the vector of the key at column \<open>p\<close>, unless that vector is loaded.\<close>

definition distribute_value ::
    "esmry \<Rightarrow> int list \<Rightarrow> nat \<Rightarrow> f32 \<Rightarrow> f32 list list \<Rightarrow> error + f32 list list" where
  "distribute_value s keywpos p v vd =
     ebind (vec_nth keywpos p) (\<lambda>kp.
       if kp > - 1 then
         ebind (vec_nth (vectorLoaded s) (nat kp)) (\<lambda>loaded.
           if \<not> loaded then push_value vd (nat kp) v else Inr vd)
       else Inr vd)"

text \<open>The \<open>for\<close> loop over the \<open>num\<close> elements of one block: \<open>k\<close> elements are left, the
  stream is at \<open>pos\<close>, the next column is \<open>p\<close>.\<close>

fun read_block_elems ::
    "esmry \<Rightarrow> stream \<Rightarrow> int list \<Rightarrow> nat \<Rightarrow> nat \<Rightarrow> nat \<Rightarrow> f32 list list \<Rightarrow> error + f32 list list" where
  "read_block_elems s fileH keywpos pos 0 p vd = Inr vd"
| "read_block_elems s fileH keywpos pos (Suc k) p vd =
     ebind (read_scalar fileH pos sizeOfReal) (\<lambda>value.
     ebind (distribute_value s keywpos p (flipEndianFloat (host_word32 value)) vd) (\<lambda>vd'.
       read_block_elems s fileH keywpos (pos + sizeOfReal) k (Suc p) vd'))"

text \<open>The \<open>while (rest > 0)\<close> loop over the blocks of an unformatted PARAMS record.\<close>

function read_blocks ::
    "esmry \<Rightarrow> stream \<Rightarrow> int list \<Rightarrow> nat \<Rightarrow> int \<Rightarrow> nat \<Rightarrow> f32 list list \<Rightarrow> error + f32 list list" where
  "read_blocks s fileH keywpos pos rest p vd =
     (if rest > 0 then
        ebind (read_scalar fileH pos 4) (\<lambda>dhead_raw.
          if sint (flipEndianInt (host_word32 dhead_raw)) sdiv int sizeOfInte
                > int (MaxBlockSizeReal div sizeOfReal)
             \<or> sint (flipEndianInt (host_word32 dhead_raw)) sdiv int sizeOfInte < 0
          then Inl Runtime_error
          else
            ebind (read_block_elems s fileH keywpos (pos + 4)
                     (nat (sint (flipEndianInt (host_word32 dhead_raw)) sdiv int sizeOfInte))
                     p vd) (\<lambda>vd'.
              if (sint (flipEndianInt (host_word32 dhead_raw)) sdiv int sizeOfInte
                     < int (MaxBlockSizeReal div sizeOfReal)
                  \<and> rest - sint (flipEndianInt (host_word32 dhead_raw)) sdiv int sizeOfInte \<noteq> 0)
                 \<or> (sint (flipEndianInt (host_word32 dhead_raw)) sdiv int sizeOfInte
                     = int (MaxBlockSizeReal div sizeOfReal)
                  \<and> rest - sint (flipEndianInt (host_word32 dhead_raw)) sdiv int sizeOfInte < 0)
              then Inl Runtime_error
              else
                ebind (read_scalar fileH
                         (pos + 4 + sizeOfReal
                            * nat (sint (flipEndianInt (host_word32 dhead_raw)) sdiv int sizeOfInte))
                         4) (\<lambda>dtail_raw.
                  if flipEndianInt (host_word32 dhead_raw) \<noteq> flipEndianInt (host_word32 dtail_raw)
                  then Inl Runtime_error
                  else
                    read_blocks s fileH keywpos
                      (pos + 4 + sizeOfReal
                         * nat (sint (flipEndianInt (host_word32 dhead_raw)) sdiv int sizeOfInte) + 4)
                      (rest - sint (flipEndianInt (host_word32 dhead_raw)) sdiv int sizeOfInte)
                      (p + nat (sint (flipEndianInt (host_word32 dhead_raw)) sdiv int sizeOfInte))
                      vd')))
      else Inr vd)"
  by pat_completeness auto
termination
proof (relation "measure (\<lambda>(s, fileH, keywpos, pos, rest, p, vd). nat rest)")
  show "wf (measure (\<lambda>(s, fileH, keywpos, pos, rest, p, vd). nat rest))" by simp
next
  fix s :: esmry and fileH :: stream and keywpos :: "int list" and pos :: nat and rest :: int
    and p :: nat and vd x xa :: "f32 list list" and dhead_raw dtail_raw :: "byte list"
  let ?num = "sint (flipEndianInt (host_word32 dhead_raw)) sdiv int sizeOfInte"
  assume r: "0 < rest"
    and a: "\<not> (int (MaxBlockSizeReal div sizeOfReal) < ?num \<or> ?num < 0)"
    and b: "\<not> (?num < int (MaxBlockSizeReal div sizeOfReal) \<and> rest - ?num \<noteq> 0
             \<or> ?num = int (MaxBlockSizeReal div sizeOfReal) \<and> rest - ?num < 0)"
  have m: "int (MaxBlockSizeReal div sizeOfReal) = 1000"
    by (simp add: MaxBlockSizeReal_def sizeOfReal_def MaxNumBlockReal_def)
  have "0 < ?num" using r a b unfolding m by linarith
  then show "((s, fileH, keywpos,
               pos + 4 + sizeOfReal * nat ?num + 4, rest - ?num, p + nat ?num, xa),
              s, fileH, keywpos, pos, rest, p, vd)
             \<in> measure (\<lambda>(s, fileH, keywpos, pos, rest, p, vd). nat rest)"
    using r by simp
qed

declare read_blocks.simps [simp del]

text \<open>\<open>find_first_not_of\<close> and \<open>find_first_of\<close> of \<open>std::string_view\<close> for one character;
  \<open>None\<close> is \<open>npos\<close>.\<close>

definition find_first_not_of :: "string \<Rightarrow> char \<Rightarrow> nat option \<Rightarrow> nat option" where
  "find_first_not_of str c pos =
     (case pos of None \<Rightarrow> None | Some p \<Rightarrow> List.find (\<lambda>i. str ! i \<noteq> c) [p ..< length str])"

definition find_first_of :: "string \<Rightarrow> char \<Rightarrow> nat option \<Rightarrow> nat option" where
  "find_first_of str c pos =
     (case pos of None \<Rightarrow> None | Some p \<Rightarrow> List.find (\<lambda>i. str ! i = c) [p ..< length str])"

text \<open>The \<open>for\<close> loop over the columns of a formatted PARAMS record held in \<open>fileStr\<close>:
  \<open>k\<close> columns are left, the next column is \<open>p\<close>, \<open>p1\<close> as in the source. \<open>strtof\<close> gets a
  pointer into the buffer, at \<open>p1\<close>.\<close>

fun read_formatted_elems ::
    "ecl_util \<Rightarrow> esmry \<Rightarrow> string \<Rightarrow> int list \<Rightarrow> nat \<Rightarrow> nat \<Rightarrow> nat option \<Rightarrow> f32 list list
       \<Rightarrow> error + f32 list list" where
  "read_formatted_elems u s fileStr keywpos 0 p p1 vd = Inr vd"
| "read_formatted_elems u s fileStr keywpos (Suc k) p p1 vd =
     (let p1' = find_first_not_of fileStr CHR '' '' p1;
          p2 = find_first_of fileStr CHR '' '' p1'
      in ebind (case p1' of
                  None \<Rightarrow> distribute_value s keywpos p invalid_value vd
                | Some q \<Rightarrow> distribute_value s keywpos p (strtof u (drop q fileStr)) vd) (\<lambda>vd'.
           read_formatted_elems u s fileStr keywpos k (Suc p)
             (find_first_not_of fileStr CHR '' '' p2) vd'))"

text \<open>The body of the loop over \<open>timeStepList\<close> after the \<open>seekg\<close>: one PARAMS record.\<close>

definition read_params ::
    "ecl_util \<Rightarrow> esmry \<Rightarrow> stream \<Rightarrow> nat \<Rightarrow> nat \<Rightarrow> int list \<Rightarrow> f32 list list
       \<Rightarrow> error + f32 list list" where
  "read_params u s fileH specInd stepFilePos keywpos vd =
     ebind (vec_nth (formattedFiles s) specInd) (\<lambda>formatted.
     ebind (vec_nth (nParamsSpecFile s) specInd) (\<lambda>nParams.
       if formatted then
         (let size = sizeOnDiskFormatted u nParams REAL (int sizeOfReal) + 1;
              buffer = read_buffer fileH stepFilePos size;
              fileStr = chars_of buffer
          in read_formatted_elems u s fileStr keywpos (nat nParams) 0 (Some 0) vd)
       else read_blocks s fileH keywpos stepFilePos nParams 0 vd))"

text \<open>The loop over \<open>timeStepList\<close>; \<open>specInd\<close>, \<open>dataFileIndex\<close>, \<open>keywpos\<close> and \<open>fileH\<close> are
  its variables.\<close>

fun loadData_all_steps ::
    "ecl_util \<Rightarrow> file_system \<Rightarrow> esmry \<Rightarrow> TimeStepEntry list \<Rightarrow> nat \<Rightarrow> nat \<Rightarrow> int list \<Rightarrow> stream
       \<Rightarrow> f32 list list \<Rightarrow> error + f32 list list" where
  "loadData_all_steps u fs s [] specInd dataFileIndex keywpos fileH vd = Inr vd"
| "loadData_all_steps u fs s (ministep # steps) specInd dataFileIndex keywpos fileH vd =
     (case ministep of (stepSpec, stepFile, stepFilePos) \<Rightarrow>
        ebind (if dataFileIndex \<noteq> stepFile then
                 ebind (if specInd \<noteq> stepSpec
                        then ebind (makeKeywPosVector s stepSpec) (\<lambda>kp. Inr (stepSpec, kp))
                        else Inr (specInd, keywpos)) (\<lambda>(specInd', keywpos').
                 ebind (open_data_file fs s specInd' stepFile) (\<lambda>h.
                   Inr (specInd', stepFile, keywpos', h)))
               else Inr (specInd, dataFileIndex, keywpos, fileH))
          (\<lambda>(specInd', dataFileIndex', keywpos', fileH').
        ebind (read_params u s fileH' specInd' stepFilePos keywpos' vd) (\<lambda>vd'.
          loadData_all_steps u fs s steps specInd' dataFileIndex' keywpos' fileH' vd')))"

text \<open>\<^verbatim>\<open>void ESmry::loadData() const\<close>\<close>

definition loadData :: "ecl_util \<Rightarrow> file_system \<Rightarrow> esmry \<Rightarrow> error + esmry" where
  "loadData u fs s =
     (case timeStepList s of
        [] \<Rightarrow> Inr s
      | (specInd, dataFileIndex, pos0) # rest \<Rightarrow>
          ebind (makeKeywPosVector s specInd) (\<lambda>keywpos.
          ebind (open_data_file fs s specInd dataFileIndex) (\<lambda>fileH.
          ebind (loadData_all_steps u fs s (timeStepList s) specInd dataFileIndex keywpos fileH
                   (vectorData s)) (\<lambda>vd.
            if nVect s > length (vectorLoaded s) then Inl Undefined_behaviour
            else Inr (s\<lparr>vectorData := vd,
                         vectorLoaded := replicate (nVect s) True
                                           @ drop (nVect s) (vectorLoaded s)\<rparr>)))))"

section \<open>ESmry: writing the ESMRY file\<close>










section \<open>ESmry: the PARAMS record seen through the seek offsets\<close>

text \<open>
  The specification's reading of a PARAMS record, to be compared with \<open>read_blocks\<close>: the
  columns \<open>p, p+1, \<dots>\<close> (\<open>k\<close> of them) are each read through their own offset
  \<open>elementPos_binary\<close>, the way \<open>loadData(vectList)\<close> reads one column, and handed to the key
  of the column.
\<close>

fun params_by_seek ::
    "esmry \<Rightarrow> stream \<Rightarrow> int list \<Rightarrow> nat \<Rightarrow> nat \<Rightarrow> nat \<Rightarrow> f32 list list \<Rightarrow> error + f32 list list" where
  "params_by_seek s fileH keywpos stepFilePos p 0 vd = Inr vd"
| "params_by_seek s fileH keywpos stepFilePos p (Suc k) vd =
     ebind (read_scalar fileH (elementPos_binary stepFilePos p) sizeOfReal) (\<lambda>value.
     ebind (distribute_value s keywpos p (flipEndianFloat (host_word32 value)) vd) (\<lambda>vd'.
       params_by_seek s fileH keywpos stepFilePos (Suc p) k vd'))"

text \<open>
  A key, by its index \<open>ind\<close>, has its column in the spec file \<open>specInd\<close>: \<open>arrayPos\<close> records a
  column for it, and that column is the one that \<open>makeKeywPosVector\<close> gives to the key. The
  two agree unless the spec file lists the key more than once: \<open>arrayPos\<close> keeps the last
  column of a key, \<open>makeKeywPosVector\<close> the first.
\<close>

definition key_column :: "esmry \<Rightarrow> nat \<Rightarrow> nat \<Rightarrow> nat option" where
  "key_column s ind specInd =
     (case vec_nth (arrayPos s) specInd of
        Inl e \<Rightarrow> None
      | Inr pos_of \<Rightarrow>
          (case pos_of ind of
             None \<Rightarrow> None
           | Some p \<Rightarrow>
               (case makeKeywPosVector s specInd of
                  Inl e \<Rightarrow> None
                | Inr keywpos \<Rightarrow>
                    if p < length keywpos \<and> keywpos ! p = int ind then Some p else None)))"

text \<open>The spec file \<open>specInd\<close> is read from unformatted result files.\<close>

definition unformatted_spec :: "esmry \<Rightarrow> nat \<Rightarrow> bool" where
  "unformatted_spec s specInd \<longleftrightarrow> vec_nth (formattedFiles s) specInd = Inr False"

text \<open>What the loop of \<open>makeKeywPosVector\<close> maintains: \<open>keywpos\<close> has \<open>N\<close> entries, and no key index
  occurs at two columns.\<close>

definition keywpos_inv :: "nat \<Rightarrow> int list \<Rightarrow> bool" where
  "keywpos_inv N kp \<longleftrightarrow>
     length kp = N \<and> (\<forall>i j. i < N \<and> j < N \<and> kp ! i = kp ! j \<and> 0 \<le> kp ! i \<longrightarrow> i = j)"

section \<open>A small summary object\<close>

text \<open>An object as the constructor leaves it for one unformatted run \<open>CASE\<close> with the keys
  \<open>FOPT\<close> and \<open>TIME\<close>, nothing loaded yet; the functions that stand for \<^verbatim>\<open>EclUtil\<close> read
  nothing and find no file.\<close>

definition example_util :: ecl_util where
  "example_util =
     \<lparr>readBinaryInteArray = (\<lambda>fileH pos n. Inr [int pos]),
      sizeOnDiskFormatted = (\<lambda>n t w. 0),
      readFormattedInteArray = (\<lambda>str n p. Inr [0]),
      strtof = (\<lambda>str. 0),
      fileExists = (\<lambda>name. False)\<rparr>"

definition example_esmry :: esmry where
  "example_esmry =
     \<lparr>inputFileName = \<lparr>path_dir = ''run/'', path_file = ''CASE.SMSPEC''\<rparr>,
      fromSingleRun = True,
      formattedFiles = [False],
      dataFileList = [''run/CASE.UNSMRY''],
      timeStepList = [],
      miniStepList = [],
      seqIndex = [],
      mini_steps = [],
      keyword = [''FOPT'', ''TIME''],
      keyword_index = [''FOPT'' \<mapsto> 0, ''TIME'' \<mapsto> 1],
      kwunits = [''FOPT'' \<mapsto> ''SM3'', ''TIME'' \<mapsto> ''DAYS''],
      arrayPos = [[0 \<mapsto> 1, 1 \<mapsto> 0]],
      keywordListSpecFile = [[''TIME'', ''FOPT'']],
      nParamsSpecFile = [2],
      vectorData = [[], []],
      vectorLoaded = [False, False],
      nVect = 2,
      start_vect = [1, 1, 2020],
      restart_info = ('''', 0)\<rparr>"

text \<open>
  The result file of the run, unformatted, with one time step: the records MINISTEP (one
  integer, 0) and PARAMS (two reals: 1.0 for \<open>TIME\<close>, 2.0 for \<open>FOPT\<close>), each a header of 24
  bytes followed by one block. The ministep block starts at byte 24, the PARAMS block at
  byte 60.
\<close>

definition example_unsmry :: "byte list" where
  "example_unsmry =
     [0, 0, 0, 16,  77, 73, 78, 73, 83, 84, 69, 80,  0, 0, 0, 1,  73, 78, 84, 69,  0, 0, 0, 16,
      0, 0, 0, 4,  0, 0, 0, 0,  0, 0, 0, 4,
      0, 0, 0, 16,  80, 65, 82, 65, 77, 83, 32, 32,  0, 0, 0, 2,  82, 69, 65, 76,  0, 0, 0, 16,
      0, 0, 0, 8,  0x3F, 0x80, 0, 0,  0x40, 0, 0, 0,  0, 0, 0, 8]"

definition example_fs :: file_system where
  "example_fs = [''run/CASE.UNSMRY'' \<mapsto> example_unsmry]"

definition example_run :: esmry where
  "example_run =
     example_esmry\<lparr>timeStepList := [(0, 0, 60)], miniStepList := [(0, 0, 24)], seqIndex := [0]\<rparr>"

text \<open>
  A restarted run: the spec file 0 is that of \<open>CASE\<close> with the columns \<open>TIME\<close> and \<open>FOPT\<close>,
  the spec file 1 that of its base run \<open>BASE\<close>, which has the column \<open>TIME\<close> only. The base
  run's result file holds one time step (its PARAMS record has the single real 1.0) and
  comes first in \<open>dataFileList\<close> and in \<open>timeStepList\<close>.
\<close>

definition example_base_unsmry :: "byte list" where
  "example_base_unsmry =
     [0, 0, 0, 16,  77, 73, 78, 73, 83, 84, 69, 80,  0, 0, 0, 1,  73, 78, 84, 69,  0, 0, 0, 16,
      0, 0, 0, 4,  0, 0, 0, 0,  0, 0, 0, 4,
      0, 0, 0, 16,  80, 65, 82, 65, 77, 83, 32, 32,  0, 0, 0, 1,  82, 69, 65, 76,  0, 0, 0, 16,
      0, 0, 0, 4,  0x3F, 0x80, 0, 0,  0, 0, 0, 4]"

definition example_chain_fs :: file_system where
  "example_chain_fs =
     [''run/BASE.UNSMRY'' \<mapsto> example_base_unsmry, ''run/CASE.UNSMRY'' \<mapsto> example_unsmry]"

definition example_chain :: esmry where
  "example_chain =
     example_esmry
       \<lparr>fromSingleRun := False,
        formattedFiles := [False, False],
        dataFileList := [''run/BASE.UNSMRY'', ''run/CASE.UNSMRY''],
        timeStepList := [(1, 0, 60), (0, 1, 60)],
        miniStepList := [(1, 0, 24), (0, 1, 24)],
        seqIndex := [0, 1],
        arrayPos := [[0 \<mapsto> 1, 1 \<mapsto> 0], [1 \<mapsto> 0]],
        keywordListSpecFile := [[''TIME'', ''FOPT''], [''TIME'']],
        nParamsSpecFile := [2, 1],
        restart_info := (''BASE'', 1)\<rparr>"


section \<open>Properties of the index arithmetic\<close>

lemma sdiv_nonneg_pos: "0 \<le> a \<Longrightarrow> 0 < b \<Longrightarrow> (a::int) sdiv b = a div b"
  by (simp add: signed_divide_int_def sgn_if)

lemma smod_nonneg_pos: "0 \<le> a \<Longrightarrow> 0 < b \<Longrightarrow> (a::int) smod b = a mod b"
  by (simp add: signed_modulo_int_def sgn_if)

lemma int_div_less:
  fixes a b c :: int
  assumes "0 < b" "a < b * c"
  shows "a div b < c"
proof (rule ccontr)
  assume "\<not> a div b < c"
  then have "c \<le> a div b" by simp
  then have "b * c \<le> b * (a div b)" using assms(1) by (simp add: mult_left_mono)
  also have "\<dots> = a - a mod b" by (simp add: minus_mod_eq_mult_div)
  also have "\<dots> \<le> a" using assms(1) by simp
  finally show False using assms(2) by simp
qed

lemma int32_id: "- 2147483648 \<le> x \<Longrightarrow> x < 2147483648 \<Longrightarrow> int32 x = x"
  by (simp add: int32_def)

lemma mult_le_cells:
  fixes a b c :: int
  assumes "0 \<le> a" "a \<le> b" "1 \<le> c"
  shows "a \<le> b * c"
proof -
  have "a * 1 \<le> b * c" using assms by (intro mult_mono) simp_all
  then show ?thesis by simp
qed

lemma cells_products:
  fixes nx ny nz :: int
  assumes "0 < nx" "0 < ny" "0 < nz" "nx * ny * nz < 2147483648"
  shows "int_mul nx ny = nx * ny" "int_mul (int_mul nx ny) nz = nx * ny * nz"
proof -
  have p: "0 < nx * ny" using assms(1,2) by simp
  have "nx * ny \<le> nx * ny * nz"
    using mult_le_cells [of "nx * ny" "nx * ny" nz] p assms(3) by simp
  then have "nx * ny < 2147483648" using assms(4) by simp
  then show a: "int_mul nx ny = nx * ny" using p by (simp add: int_mul_def int32_id)
  have "0 < nx * ny * nz" using p assms(3) by simp
  then show "int_mul (int_mul nx ny) nz = nx * ny * nz"
    unfolding a using assms(4) by (simp add: int_mul_def int32_id)
qed

lemma ijk_from_global_index_in_range:
  assumes "0 < nx" "0 < ny" "0 < nz" "nx * ny * nz < 2147483648" "0 \<le> g" "g < nx * ny * nz"
  shows "ijk_from_global_index (nx, ny, nz) g =
           Inr (g mod (nx * ny) mod nx, g mod (nx * ny) div nx, g div (nx * ny))"
proof -
  have p: "0 < nx * ny" using assms(1,2) by simp
  have r: "0 \<le> g mod (nx * ny)" using p by simp
  show ?thesis
    using assms p r cells_products [OF assms(1-4)]
    by (simp add: ijk_from_global_index_def Let_def sdiv_nonneg_pos smod_nonneg_pos)
qed

lemma global_index_in_range:
  fixes nx ny nz i j k :: int
  assumes d: "0 < nx" "0 < ny" "0 < nz" "nx * ny * nz < 2147483648"
    and r: "0 \<le> i" "i < nx" "0 \<le> j" "j < ny" "0 \<le> k" "k < nz"
  shows "global_index (nx, ny, nz) i j k = Inr (i + j * nx + k * nx * ny)"
proof -
  have j1: "j + 1 \<le> ny" and k1: "k + 1 \<le> nz" using r by simp_all
  have a: "0 \<le> j * nx" "0 \<le> k * nx" "0 \<le> k * nx * ny" using d r by simp_all
  have "(j + 1) * nx \<le> ny * nx" using j1 d(1) by (intro mult_right_mono) simp_all
  then have b: "i + j * nx < nx * ny" using r(2) by (simp add: algebra_simps)
  have "(k + 1) * (nx * ny) \<le> nz * (nx * ny)"
    using k1 d(1,2) by (intro mult_right_mono) simp_all
  then have c: "i + j * nx + k * nx * ny < nx * ny * nz" using b by (simp add: algebra_simps)
  have m: "i + j * nx + k * nx * ny < 2147483648" using c d(4) by simp
  have e1: "int_mul j nx = j * nx"
    using a(1) r(1) a(3) m by (simp add: int_mul_def int32_id)
  have kn: "k * nx \<le> k * nx * ny"
    using mult_le_cells [of "k * nx" "k * nx" ny] a(2) d(2) by simp
  have e2: "int_mul k nx = k * nx"
    using a(2) kn r(1) a(1) m by (simp add: int_mul_def int32_id)
  have e3: "int_mul (k * nx) ny = k * nx * ny"
    using a r(1) m by (simp add: int_mul_def int32_id)
  have e4: "int_add i (j * nx) = i + j * nx"
    using a r(1) m by (simp add: int_add_def int32_id)
  have e5: "int_add (i + j * nx) (k * nx * ny) = i + j * nx + k * nx * ny"
    using a r(1) m by (simp add: int_add_def int32_id)
  have "int_add (int_add i (int_mul j nx)) (int_mul (int_mul k nx) ny)
          = i + j * nx + k * nx * ny"
    unfolding e1 e2 e3 e4 e5 by (rule refl)
  then show ?thesis
    using r by (simp add: global_index_def)
qed

lemma ijk_components_in_range:
  fixes nx ny nz g :: int
  assumes "0 < nx" "0 < ny" "0 \<le> g" "g < nx * ny * nz"
  shows "0 \<le> g mod (nx * ny) mod nx" "g mod (nx * ny) mod nx < nx"
        "0 \<le> g mod (nx * ny) div nx" "g mod (nx * ny) div nx < ny"
        "0 \<le> g div (nx * ny)" "g div (nx * ny) < nz"
proof -
  have p: "0 < nx * ny" using assms(1,2) by simp
  show "0 \<le> g mod (nx * ny) mod nx" "g mod (nx * ny) mod nx < nx"
    using assms by simp_all
  have r: "0 \<le> g mod (nx * ny)" "g mod (nx * ny) < nx * ny" using p by simp_all
  show "0 \<le> g mod (nx * ny) div nx" using r assms by (simp add: pos_imp_zdiv_nonneg_iff)
  show "g mod (nx * ny) div nx < ny"
    using r(2) assms(1) by (rule_tac int_div_less) simp_all
  show "0 \<le> g div (nx * ny)" using p assms by (simp add: pos_imp_zdiv_nonneg_iff)
  have "g < (nx * ny) * nz" using assms(4) by simp
  then show "g div (nx * ny) < nz"
    using p by (rule_tac int_div_less) simp_all
qed

lemma recompose_index:
  fixes g nx ny :: int
  shows "g mod (nx * ny) mod nx + g mod (nx * ny) div nx * nx + g div (nx * ny) * nx * ny = g"
proof -
  have "g mod (nx * ny) mod nx + g mod (nx * ny) div nx * nx = g mod (nx * ny)"
    by (simp add: mult.commute)
  moreover have "g mod (nx * ny) + g div (nx * ny) * (nx * ny) = g"
    by (rule mod_div_mult_eq)
  ultimately show ?thesis by (simp add: mult.assoc)
qed

text \<open>
  \<^bold>\<open>C2\<close> (as amended). On a grid of positive dimensions whose cell count \<open>nx*ny*nz\<close> is
  less than \<open>2^31\<close>, every global index \<open>g\<close> in \<open>[0, nx*ny*nz)\<close> is unpacked by
  \<open>ijk_from_global_index\<close> into \<open>k = g/(nx*ny)\<close>, \<open>j = (g%(nx*ny))/nx\<close>,
  \<open>i = (g%(nx*ny))%nx\<close>; \<open>global_index\<close> returns \<open>i + j*nx + k*nx*ny\<close> for a triple in range
  and maps the unpacked triple back to \<open>g\<close>; on such a grid \<open>ijk_from_global_index\<close> throws
  \<open>invalid_argument\<close> exactly when its argument lies outside \<open>[0, nx*ny*nz)\<close>. On every
  grid \<open>global_index\<close> throws \<open>invalid_argument\<close> exactly when \<open>(i, j, k)\<close> is outside the
  grid, and neither function throws anything else.
\<close>

theorem global_index_roundtrip:
  "(0 < nx \<and> 0 < ny \<and> 0 < nz \<and> nx * ny * nz < 2 ^ 31 \<longrightarrow>
      (0 \<le> g \<and> g < nx * ny * nz \<longrightarrow>
        (\<exists>i j k. ijk_from_global_index (nx, ny, nz) g = Inr (i, j, k)
            \<and> k = g div (nx * ny) \<and> j = (g mod (nx * ny)) div nx \<and> i = (g mod (nx * ny)) mod nx
            \<and> global_index (nx, ny, nz) i j k = Inr g))
    \<and> (ijk_from_global_index (nx, ny, nz) g' = Inl Invalid_argument
          \<longleftrightarrow> g' < 0 \<or> nx * ny * nz \<le> g')
    \<and> (0 \<le> i' \<and> i' < nx \<and> 0 \<le> j' \<and> j' < ny \<and> 0 \<le> k' \<and> k' < nz \<longrightarrow>
          global_index (nx, ny, nz) i' j' k' = Inr (i' + j' * nx + k' * nx * ny)))
   \<and> (\<forall>e. ijk_from_global_index (nx, ny, nz) g' = Inl e \<longrightarrow> e = Invalid_argument)
   \<and> (global_index (nx, ny, nz) i' j' k' = Inl Invalid_argument
          \<longleftrightarrow> \<not> (0 \<le> i' \<and> i' < nx \<and> 0 \<le> j' \<and> j' < ny \<and> 0 \<le> k' \<and> k' < nz))
   \<and> (\<forall>e. global_index (nx, ny, nz) i' j' k' = Inl e \<longrightarrow> e = Invalid_argument)"
proof (intro conjI)
  show "0 < nx \<and> 0 < ny \<and> 0 < nz \<and> nx * ny * nz < 2 ^ 31 \<longrightarrow>
      (0 \<le> g \<and> g < nx * ny * nz \<longrightarrow>
        (\<exists>i j k. ijk_from_global_index (nx, ny, nz) g = Inr (i, j, k)
            \<and> k = g div (nx * ny) \<and> j = (g mod (nx * ny)) div nx \<and> i = (g mod (nx * ny)) mod nx
            \<and> global_index (nx, ny, nz) i j k = Inr g))
    \<and> (ijk_from_global_index (nx, ny, nz) g' = Inl Invalid_argument
          \<longleftrightarrow> g' < 0 \<or> nx * ny * nz \<le> g')
    \<and> (0 \<le> i' \<and> i' < nx \<and> 0 \<le> j' \<and> j' < ny \<and> 0 \<le> k' \<and> k' < nz \<longrightarrow>
          global_index (nx, ny, nz) i' j' k' = Inr (i' + j' * nx + k' * nx * ny))"
  proof (rule impI)
    assume a: "0 < nx \<and> 0 < ny \<and> 0 < nz \<and> nx * ny * nz < 2 ^ 31"
    then have d: "0 < nx" "0 < ny" "0 < nz" "nx * ny * nz < 2147483648" by simp_all
    have rt: "\<exists>i j k. ijk_from_global_index (nx, ny, nz) g = Inr (i, j, k)
            \<and> k = g div (nx * ny) \<and> j = (g mod (nx * ny)) div nx \<and> i = (g mod (nx * ny)) mod nx
            \<and> global_index (nx, ny, nz) i j k = Inr g"
      if g: "0 \<le> g \<and> g < nx * ny * nz"
    proof -
      from g have h: "0 \<le> g" "g < nx * ny * nz" by simp_all
      note c = ijk_components_in_range [OF d(1,2) h]
      have "global_index (nx, ny, nz) (g mod (nx * ny) mod nx) (g mod (nx * ny) div nx)
              (g div (nx * ny)) = Inr g"
        using global_index_in_range [OF d c] recompose_index [of g nx ny] by simp
      then show ?thesis
        using ijk_from_global_index_in_range [OF d h] by simp
    qed
    have th: "ijk_from_global_index (nx, ny, nz) g' = Inl Invalid_argument
          \<longleftrightarrow> g' < 0 \<or> nx * ny * nz \<le> g'"
      using cells_products [OF d] by (auto simp: ijk_from_global_index_def Let_def)
    have gi: "global_index (nx, ny, nz) i' j' k' = Inr (i' + j' * nx + k' * nx * ny)"
      if "0 \<le> i' \<and> i' < nx \<and> 0 \<le> j' \<and> j' < ny \<and> 0 \<le> k' \<and> k' < nz"
      using that by (intro global_index_in_range [OF d]) simp_all
    show "(0 \<le> g \<and> g < nx * ny * nz \<longrightarrow>
        (\<exists>i j k. ijk_from_global_index (nx, ny, nz) g = Inr (i, j, k)
            \<and> k = g div (nx * ny) \<and> j = (g mod (nx * ny)) div nx \<and> i = (g mod (nx * ny)) mod nx
            \<and> global_index (nx, ny, nz) i j k = Inr g))
    \<and> (ijk_from_global_index (nx, ny, nz) g' = Inl Invalid_argument
          \<longleftrightarrow> g' < 0 \<or> nx * ny * nz \<le> g')
    \<and> (0 \<le> i' \<and> i' < nx \<and> 0 \<le> j' \<and> j' < ny \<and> 0 \<le> k' \<and> k' < nz \<longrightarrow>
          global_index (nx, ny, nz) i' j' k' = Inr (i' + j' * nx + k' * nx * ny))"
      using rt th gi by blast
  qed
next
  show "\<forall>e. ijk_from_global_index (nx, ny, nz) g' = Inl e \<longrightarrow> e = Invalid_argument"
    by (auto simp: ijk_from_global_index_def Let_def split: if_splits)
next
  show "global_index (nx, ny, nz) i' j' k' = Inl Invalid_argument
          \<longleftrightarrow> \<not> (0 \<le> i' \<and> i' < nx \<and> 0 \<le> j' \<and> j' < ny \<and> 0 \<le> k' \<and> k' < nz)"
    by (auto simp: global_index_def)
next
  show "\<forall>e. global_index (nx, ny, nz) i' j' k' = Inl e \<longrightarrow> e = Invalid_argument"
    by (auto simp: global_index_def split: if_splits)
qed

theorem global_index_roundtrip_witness:
  "ijk_from_global_index (2, 3, 4) 17 = Inr (1, 2, 2)
   \<and> global_index (2, 3, 4) 1 2 2 = Inr 17
   \<and> ijk_from_global_index (2, 3, 4) 24 = Inl Invalid_argument
   \<and> global_index (2, 3, 4) 1 0 3 = Inr 19
   \<and> global_index (2, 3, 4) 2 0 0 = Inl Invalid_argument"
proof -
  have d: "(0::int) < 2 \<and> (0::int) < 3 \<and> (0::int) < 4 \<and> (2::int) * 3 * 4 < 2 ^ 31" by simp
  note t = global_index_roundtrip [of 2 3 4 17 24 1 0 3]
  note c = mp [OF t [THEN conjunct1] d]
  have "\<exists>i j k. ijk_from_global_index (2, 3, 4) 17 = Inr (i, j, k)
            \<and> k = 17 div (2 * 3) \<and> j = (17 mod (2 * 3)) div 2 \<and> i = (17 mod (2 * 3)) mod 2
            \<and> global_index (2, 3, 4) i j k = Inr 17"
    by (rule mp [OF c [THEN conjunct1]]) simp
  then have a: "ijk_from_global_index (2, 3, 4) 17 = Inr (1, 2, 2)
      \<and> global_index (2, 3, 4) 1 2 2 = Inr 17"
    by auto
  have b: "ijk_from_global_index (2, 3, 4) 24 = Inl Invalid_argument"
    using c [THEN conjunct2, THEN conjunct1] by simp
  have e: "global_index (2, 3, 4) 1 0 3 = Inr 19"
    using mp [OF c [THEN conjunct2, THEN conjunct2]] by simp
  have f: "global_index (2, 3, 4) 2 0 0 = Inl Invalid_argument"
    using global_index_roundtrip [of 2 3 4 17 24 2 0 0, THEN conjunct2, THEN conjunct2,
        THEN conjunct1]
    by simp
  show ?thesis using a b e f by simp
qed

theorem global_index_overflow_counterexample:
  "(0::int) \<le> 5 \<and> (5::int) < 65536 * 65536 * 1
   \<and> ijk_from_global_index (65536, 65536, 1) 5 = Inl Invalid_argument
   \<and> (0::int) \<le> 17 \<and> (17::int) < (- 2) * (- 3) * 4
   \<and> ijk_from_global_index (- 2, - 3, 4) 17 = Inr (1, - 2, 2)
   \<and> global_index (- 2, - 3, 4) 1 (- 2) 2 = Inl Invalid_argument"
  by (simp add: ijk_from_global_index_def global_index_def int_mul_def int32_def Let_def
        signed_divide_int_def signed_modulo_int_def)
section \<open>Properties of the active-cell maps\<close>








section \<open>Properties of the corner reconstruction\<close>

lemma ebind_Inr_iff: "ebind r f = Inr y \<longleftrightarrow> (\<exists>x. r = Inr x \<and> f x = Inr y)"
  by (cases r) (simp_all add: ebind_def)

lemma ebind_Inr [simp]: "ebind (Inr x) f = f x"
  by (simp add: ebind_def)

lemma ebind_Inl [simp]: "ebind (Inl e) f = Inl e"
  by (simp add: ebind_def)

lemma sequence_err_Inr:
  "sequence_err rs = Inr xs \<Longrightarrow> length xs = length rs \<and> (\<forall>n < length rs. rs ! n = Inr (xs ! n))"
proof (induction rs arbitrary: xs)
  case Nil
  then show ?case by simp
next
  case (Cons r rs)
  from Cons.prems obtain x ys where r: "r = Inr x" and s: "sequence_err rs = Inr ys"
    and xs: "xs = x # ys"
    by (auto simp: ebind_Inr_iff)
  from Cons.IH [OF s] r xs show ?case
    by (auto simp: nth_Cons split: nat.splits)
qed

subsection \<open>Rounding to \<open>double\<close>\<close>

lemma bin_exp_numeral:
  "bin_exp (numeral k) a =
     (if 2 \<le> a then bin_exp (pred_numeral k) (a / 2) + 1
      else if a < 1 then bin_exp (pred_numeral k) (2 * a) - 1
      else 0)"
  by (simp add: numeral_eq_Suc)

lemma bin_exp_zero: "bin_exp n 0 = - int n"
  by (induction n) simp_all

lemma round_double_zero: "round_double 0 = 0"
  by (simp add: round_double_def round_half_even_def)

lemma round_double_nonzero:
  "x \<noteq> 0 \<Longrightarrow>
     round_double x =
       of_int (round_half_even (x / 2 powi (max (bin_exp 1100 \<bar>x\<bar>) (- 1022) - 52)))
         * 2 powi (max (bin_exp 1100 \<bar>x\<bar>) (- 1022) - 52)"
  unfolding round_double_def double_exp_def Let_def by (rule refl)

lemmas double_eval =
  double_add_def double_sub_def double_mul_def double_div_def
  round_double_zero round_double_nonzero bin_exp_numeral round_half_even_def Let_def
  power_int_minus

lemma example_pillar_xy:
  "pillar_xy ((0, 0, 0), (10, 0, 100)) 50 = (5, 0)"
  "pillar_xy ((0, 0, 0), (10, 0, 100)) 100 = (10, 0)"
  "pillar_xy ((0, 0, 0), (7, 7, 0)) z = (0, 0)"
  "pillar_xy ((0, 1, 0), (10, 1, 100)) 50 = (5, 1)"
  "pillar_xy ((0, 1, 0), (10, 1, 100)) 100 = (10, 1)"
  "pillar_xy ((1, 1, 0), (1, 1, 100)) 50 = (1, 1)"
  "pillar_xy ((1, 1, 0), (1, 1, 100)) 100 = (1, 1)"
  by (simp_all add: pillar_xy_def double_eval)

lemma example_slanted_xy:
  "pillar_xy ((0, 0, 0), (1, 3, 49)) 49 = (9007199254740991 / 9007199254740992, 3)"
  by (simp add: pillar_xy_def double_eval)

lemma bin_exp_bounds:
  assumes "2 powi (- int n) \<le> a" "a < 2 powi (int n + 1)"
  shows "2 powi (bin_exp n a) \<le> a \<and> a < 2 powi (bin_exp n a + 1)"
  using assms
proof (induction n arbitrary: a)
  case 0
  then show ?case by simp
next
  case (Suc n)
  have p: "(2::real) powi (int (Suc n) + 1) = 2 * 2 powi (int n + 1)"
    by (simp add: power_int_add algebra_simps)
  have m: "(2::real) powi (- int n) = 2 * 2 powi (- int (Suc n))"
    by (simp add: power_int_diff power_int_minus field_simps)
  show ?case
  proof (cases "2 \<le> a")
    case True
    have "2 powi (- int n) \<le> (1::real)"
      by (simp add: power_int_minus field_simps)
    then have l: "2 powi (- int n) \<le> a / 2" using True by simp
    have u: "a / 2 < 2 powi (int n + 1)" using Suc.prems(2) p by simp
    from Suc.IH [OF l u] have "2 powi (bin_exp n (a / 2)) \<le> a / 2"
      "a / 2 < 2 powi (bin_exp n (a / 2) + 1)" by simp_all
    then have "2 powi (bin_exp n (a / 2) + 1) \<le> a" "a < 2 powi (bin_exp n (a / 2) + 1 + 1)"
      by (simp_all add: power_int_add)
    then show ?thesis using True by simp
  next
    case False
    show ?thesis
    proof (cases "a < 1")
      case small: True
      have l: "2 powi (- int n) \<le> 2 * a" using Suc.prems(1) m by simp
      have "(1::real) \<le> 2 powi (int n)"
        by (intro one_le_power_int) simp_all
      then have "(2::real) \<le> 2 powi (int n + 1)"
        by (simp add: power_int_add)
      then have u: "2 * a < 2 powi (int n + 1)" using small by linarith
      from Suc.IH [OF l u] have "2 powi (bin_exp n (2 * a)) \<le> 2 * a"
        "2 * a < 2 powi (bin_exp n (2 * a) + 1)" by simp_all
      then have "2 powi (bin_exp n (2 * a) - 1) \<le> a" "a < 2 powi (bin_exp n (2 * a) - 1 + 1)"
        by (simp_all add: power_int_diff power_int_add)
      then show ?thesis using False small by simp
    next
      case mid: False
      then show ?thesis using False by simp
    qed
  qed
qed

lemma round_half_even_near: "\<bar>of_int (round_half_even x) - x\<bar> \<le> 1 / 2"
proof -
  show ?thesis
    by (auto simp: round_half_even_def Let_def abs_if) linarith+
qed

text \<open>In the normal range of \<open>double\<close> the relative error of rounding is at most \<open>2^-53\<close>.\<close>

lemma round_double_error:
  assumes "2 powi (- 1022) \<le> \<bar>v\<bar>" "\<bar>v\<bar> < 2 powi 1024"
  shows "\<bar>round_double v - v\<bar> \<le> 2 powi (- 53) * \<bar>v\<bar>"
proof -
  define e where "e = bin_exp 1100 \<bar>v\<bar>"
  have "(2::real) powi (- int 1100) \<le> 2 powi (- 1022)"
    by (intro power_int_increasing) simp_all
  then have l: "2 powi (- int 1100) \<le> \<bar>v\<bar>" using assms(1) by simp
  have "(2::real) powi 1024 \<le> 2 powi (int 1100 + 1)"
    by (intro power_int_increasing) simp_all
  then have u: "\<bar>v\<bar> < 2 powi (int 1100 + 1)" using assms(2) by simp
  from bin_exp_bounds [OF l u]
  have b: "2 powi e \<le> \<bar>v\<bar>" "\<bar>v\<bar> < 2 powi (e + 1)" by (simp_all add: e_def)
  have "(2::real) powi (- 1022) < 2 powi (e + 1)" using assms(1) b(2) by simp
  have "- 1022 < e + 1"
  proof (rule ccontr)
    assume "\<not> - 1022 < e + 1"
    then have "(2::real) powi (e + 1) \<le> 2 powi (- 1022)"
      by (intro power_int_increasing) simp_all
    with \<open>(2::real) powi (- 1022) < 2 powi (e + 1)\<close> show False by simp
  qed
  then have m: "max e (- 1022) = e" by simp
  define q where "q = e - 52"
  have qp: "(0::real) < 2 powi q" by simp
  have r: "round_double v = of_int (round_half_even (v / 2 powi q)) * 2 powi q"
    by (simp add: round_double_def double_exp_def Let_def e_def [symmetric] m q_def)
  have "round_double v - v = (of_int (round_half_even (v / 2 powi q)) - v / 2 powi q) * 2 powi q"
    by (simp add: r field_simps)
  then have "\<bar>round_double v - v\<bar>
      = \<bar>of_int (round_half_even (v / 2 powi q)) - v / 2 powi q\<bar> * 2 powi q"
    by (simp add: abs_mult)
  also have "\<dots> \<le> 1 / 2 * 2 powi q"
    using round_half_even_near [of "v / 2 powi q"] qp by (intro mult_right_mono) simp_all
  also have "\<dots> = 2 powi (- 53) * 2 powi e"
    by (simp add: q_def power_int_diff power_int_minus)
  also have "\<dots> \<le> 2 powi (- 53) * \<bar>v\<bar>"
    using b(1) by (intro mult_left_mono) simp_all
  finally show ?thesis .
qed

lemma round_double_relative:
  assumes "v = 0 \<or> 2 powi (- 1022) \<le> \<bar>v\<bar> \<and> \<bar>v\<bar> < 2 powi 1024"
  shows "\<exists>d. \<bar>d\<bar> \<le> 2 powi (- 53) \<and> round_double v = v * (1 + d)"
proof (cases "v = 0")
  case True
  then show ?thesis by (intro exI [of _ 0]) (simp add: round_double_zero)
next
  case False
  with assms have "\<bar>round_double v - v\<bar> \<le> 2 powi (- 53) * \<bar>v\<bar>"
    by (intro round_double_error) simp_all
  then have "\<bar>(round_double v - v) / v\<bar> \<le> 2 powi (- 53)"
    using False by (simp add: field_simps)
  moreover have "round_double v = v * (1 + (round_double v - v) / v)"
    using False by (simp add: field_simps)
  ultimately show ?thesis by blast
qed

lemma pillar_xy_exact:
  assumes "zt \<noteq> zb"
    and "round_double (xb - xt) = xb - xt" "round_double (zt - zb) = zt - zb"
    and "round_double (zt - z) = zt - z"
    and "round_double ((xb - xt) / (zt - zb)) = (xb - xt) / (zt - zb)"
    and "round_double ((xb - xt) / (zt - zb) * (zt - z)) = (xb - xt) / (zt - zb) * (zt - z)"
    and "round_double (xt + (xb - xt) / (zt - zb) * (zt - z))
           = xt + (xb - xt) / (zt - zb) * (zt - z)"
  shows "fst (pillar_xy ((xt, yt, zt), (xb, yb, zb)) z)
           = xt + (xb - xt) * (zt - z) / (zt - zb)"
  using assms
  by (simp add: pillar_xy_def double_add_def double_sub_def double_mul_def double_div_def)

lemma pillar_xy_accuracy:
  assumes ne: "zt \<noteq> zb"
    and n1: "in_double_range (xb - xt)" and n2: "in_double_range (zt - zb)"
    and n3: "in_double_range (zt - z)"
    and n4: "in_double_range (double_sub xb xt / double_sub zt zb)"
    and n5: "in_double_range (double_div (double_sub xb xt) (double_sub zt zb)
               * double_sub zt z)"
    and n6: "in_double_range (xt + double_mul (double_div (double_sub xb xt) (double_sub zt zb))
               (double_sub zt z))"
  shows "\<exists>d1 d2 d3 d4 d5 d6.
           \<bar>d1\<bar> \<le> 2 powi (- 53) \<and> \<bar>d2\<bar> \<le> 2 powi (- 53) \<and> \<bar>d3\<bar> \<le> 2 powi (- 53)
         \<and> \<bar>d4\<bar> \<le> 2 powi (- 53) \<and> \<bar>d5\<bar> \<le> 2 powi (- 53) \<and> \<bar>d6\<bar> \<le> 2 powi (- 53)
         \<and> fst (pillar_xy ((xt, yt, zt), (xb, yb, zb)) z)
             = (xt + (xb - xt) * (1 + d1) / ((zt - zb) * (1 + d2)) * (1 + d4)
                       * ((zt - z) * (1 + d3)) * (1 + d5)) * (1 + d6)"
proof -
  from round_double_relative [OF n1 [unfolded in_double_range_def]] obtain d1 where
      d1: "\<bar>d1\<bar> \<le> 2 powi (- 53)" "double_sub xb xt = (xb - xt) * (1 + d1)"
    by (auto simp: double_sub_def)
  from round_double_relative [OF n2 [unfolded in_double_range_def]] obtain d2 where
      d2: "\<bar>d2\<bar> \<le> 2 powi (- 53)" "double_sub zt zb = (zt - zb) * (1 + d2)"
    by (auto simp: double_sub_def)
  from round_double_relative [OF n3 [unfolded in_double_range_def]] obtain d3 where
      d3: "\<bar>d3\<bar> \<le> 2 powi (- 53)" "double_sub zt z = (zt - z) * (1 + d3)"
    by (auto simp: double_sub_def)
  from round_double_relative [OF n4 [unfolded in_double_range_def]] obtain d4 where
      d4: "\<bar>d4\<bar> \<le> 2 powi (- 53)"
        "double_div (double_sub xb xt) (double_sub zt zb)
           = double_sub xb xt / double_sub zt zb * (1 + d4)"
    by (auto simp: double_div_def)
  from round_double_relative [OF n5 [unfolded in_double_range_def]] obtain d5 where
      d5: "\<bar>d5\<bar> \<le> 2 powi (- 53)"
        "double_mul (double_div (double_sub xb xt) (double_sub zt zb)) (double_sub zt z)
           = double_div (double_sub xb xt) (double_sub zt zb) * double_sub zt z * (1 + d5)"
    by (auto simp: double_mul_def)
  from round_double_relative [OF n6 [unfolded in_double_range_def]] obtain d6 where
      d6: "\<bar>d6\<bar> \<le> 2 powi (- 53)"
        "double_add xt (double_mul (double_div (double_sub xb xt) (double_sub zt zb))
                          (double_sub zt z))
           = (xt + double_mul (double_div (double_sub xb xt) (double_sub zt zb))
                     (double_sub zt z)) * (1 + d6)"
    by (auto simp: double_add_def)
  have "fst (pillar_xy ((xt, yt, zt), (xb, yb, zb)) z)
      = double_add xt (double_mul (double_div (double_sub xb xt) (double_sub zt zb))
                          (double_sub zt z))"
    using ne by (simp add: pillar_xy_def)
  also have "\<dots> = (xt + (xb - xt) * (1 + d1) / ((zt - zb) * (1 + d2)) * (1 + d4)
                       * ((zt - z) * (1 + d3)) * (1 + d5)) * (1 + d6)"
    by (subst d6(2), subst d5(2), subst d4(2)) (simp only: d1(2) d2(2) d3(2))
  finally show ?thesis
    using d1(1) d2(1) d3(1) d4(1) d5(1) d6(1) by blast
qed

subsection \<open>The corners of a cell\<close>

lemma pillar_xy_swap:
  "snd (pillar_xy ((xt, yt, zt), (xb, yb, zb)) z) = fst (pillar_xy ((yt, xt, zt), (yb, xb, zb)) z)"
  by (simp add: pillar_xy_def)

lemma length_pind: "length (pind d s ijk) = 4"
  by (simp add: pind_def Let_def split: prod.splits)

lemma length_zind: "length (zind d ijk) = 8"
  by (simp add: zind_def Let_def split: prod.splits)

lemma upt4: "[0 ..< 4] = [0, 1, 2, Suc 2]"
  by (simp add: upt_rec)

lemma getCellCorners_Inr:
  assumes "getCellCorners m g (i, j, k) = Inr (X, Y, Z)"
  obtains r S where "res g k = Some r"
    "sequence_err (map (vec_at (zcorn_array g)) (zind (nijk g) (i, j, k))) = Inr Z"
    "sequence_err (map (pillar_samples m g)
        (pind (nijk g)
           (int_mul (int_mul (int_mul r (int_add (fst (nijk g)) 1))
                       (int_add (fst (snd (nijk g))) 1)) 6)
           (i, j, k))) = Inr S"
    "X = map (\<lambda>n. fst (pillar_xy (S ! n) (Z ! n))) [0 ..< 4]
         @ map (\<lambda>n. fst (pillar_xy (S ! n) (Z ! (n + 4)))) [0 ..< 4]"
    "Y = map (\<lambda>n. snd (pillar_xy (S ! n) (Z ! n))) [0 ..< 4]
         @ map (\<lambda>n. snd (pillar_xy (S ! n) (Z ! (n + 4)))) [0 ..< 4]"
  using assms
  by (auto simp: getCellCorners_def Let_def ebind_Inr_iff comp_def
           split: prod.splits option.splits)

lemma pillar_samples_cartesian:
  assumes "pillar_samples m g p = Inr ((xt, yt, zt), (xb, yb, zb))" "\<not> m_radial g"
  shows "vec_at (coord_array g) p = Inr xt \<and> vec_at (coord_array g) (int_add p 1) = Inr yt
       \<and> vec_at (coord_array g) (int_add p 2) = Inr zt
       \<and> vec_at (coord_array g) (int_add p 3) = Inr xb
       \<and> vec_at (coord_array g) (int_add p 4) = Inr yb
       \<and> vec_at (coord_array g) (int_add p 5) = Inr zb"
  using assms by (auto simp: pillar_samples_def ebind_Inr_iff)

lemma getCellCorners_pillar:
  assumes c: "getCellCorners m g (i, j, k) = Inr (X, Y, Z)" and n: "n < 4"
  shows "\<exists>r s. res g k = Some r
           \<and> pillar_samples m g
               (pind (nijk g)
                  (int_mul (int_mul (int_mul r (int_add (fst (nijk g)) 1))
                              (int_add (fst (snd (nijk g))) 1)) 6)
                  (i, j, k) ! n)
               = Inr s
           \<and> vec_at (zcorn_array g) (zind (nijk g) (i, j, k) ! n) = Inr (Z ! n)
           \<and> vec_at (zcorn_array g) (zind (nijk g) (i, j, k) ! (n + 4)) = Inr (Z ! (n + 4))
           \<and> (X ! n, Y ! n) = pillar_xy s (Z ! n)
           \<and> (X ! (n + 4), Y ! (n + 4)) = pillar_xy s (Z ! (n + 4))"
proof -
  from c obtain r S where r: "res g k = Some r"
    and z: "sequence_err (map (vec_at (zcorn_array g)) (zind (nijk g) (i, j, k))) = Inr Z"
    and p: "sequence_err (map (pillar_samples m g)
        (pind (nijk g)
           (int_mul (int_mul (int_mul r (int_add (fst (nijk g)) 1))
                       (int_add (fst (snd (nijk g))) 1)) 6)
           (i, j, k))) = Inr S"
    and X: "X = map (\<lambda>n. fst (pillar_xy (S ! n) (Z ! n))) [0 ..< 4]
         @ map (\<lambda>n. fst (pillar_xy (S ! n) (Z ! (n + 4)))) [0 ..< 4]"
    and Y: "Y = map (\<lambda>n. snd (pillar_xy (S ! n) (Z ! n))) [0 ..< 4]
         @ map (\<lambda>n. snd (pillar_xy (S ! n) (Z ! (n + 4)))) [0 ..< 4]"
    by (rule getCellCorners_Inr)
  let ?ps = "pind (nijk g)
               (int_mul (int_mul (int_mul r (int_add (fst (nijk g)) 1))
                           (int_add (fst (snd (nijk g))) 1)) 6)
               (i, j, k)"
  let ?zs = "zind (nijk g) (i, j, k)"
  from sequence_err_Inr [OF p] n have ps: "pillar_samples m g (?ps ! n) = Inr (S ! n)"
    by (simp add: length_pind)
  from sequence_err_Inr [OF z] n
  have zs: "vec_at (zcorn_array g) (?zs ! n) = Inr (Z ! n)"
           "vec_at (zcorn_array g) (?zs ! (n + 4)) = Inr (Z ! (n + 4))"
    by (simp_all add: length_zind)
  have Xn: "X ! n = fst (pillar_xy (S ! n) (Z ! n))"
           "X ! (n + 4) = fst (pillar_xy (S ! n) (Z ! (n + 4)))"
    using n by (simp_all add: X nth_append)
  have Yn: "Y ! n = snd (pillar_xy (S ! n) (Z ! n))"
           "Y ! (n + 4) = snd (pillar_xy (S ! n) (Z ! (n + 4)))"
    using n by (simp_all add: Y nth_append)
  show ?thesis
    using r ps zs Xn Yn by (intro exI [of _ r] exI [of _ "S ! n"]) simp
qed

lemma int_small: "int_add 0 0 = 0" "int_add 0 1 = 1" "int_add 0 2 = 2" "int_add 0 3 = 3"
  "int_add 0 4 = 4" "int_add 0 5 = 5" "int_add 0 6 = 6" "int_add 6 1 = 7" "int_add 6 2 = 8"
  "int_add 6 3 = 9" "int_add 6 4 = 10" "int_add 6 5 = 11" "int_add 6 6 = 12"
  "int_add 12 1 = 13" "int_add 12 2 = 14" "int_add 12 3 = 15" "int_add 12 4 = 16"
  "int_add 12 5 = 17" "int_add 12 6 = 18" "int_add 18 1 = 19" "int_add 18 2 = 20"
  "int_add 18 3 = 21" "int_add 18 4 = 22" "int_add 18 5 = 23"
  "int_add 1 1 = 2" "int_add 2 1 = 3" "int_add 0 12 = 12" "int_add 1 4 = 5" "int_add 2 4 = 6"
  "int_add 3 4 = 7"
  "int_mul 0 a = 0" "int_mul 2 6 = 12" "int_mul 1 2 = 2" "int_mul 1 1 = 1" "int_mul 1 4 = 4"
  by (simp_all add: int_add_def int_mul_def int32_def)

lemma example_pind:
  "pind (1, 1, 1) (int_mul (int_mul (int_mul 0 (int_add 1 1)) (int_add 1 1)) 6) (0, 0, 0)
     = [0, 6, 12, 18]"
  "zind (1, 1, 1) (0, 0, 0) = [0, 1, 2, 3, 4, 5, 6, 7]"
  by (simp_all add: pind_def zind_def Let_def int_small)

lemma example_pillar_samples:
  "pillar_samples m example_pillar_grid 0 = Inr ((0, 0, 0), (10, 0, 100))"
  "pillar_samples m example_pillar_grid 6 = Inr ((0, 0, 0), (7, 7, 0))"
  "pillar_samples m example_pillar_grid 12 = Inr ((0, 1, 0), (10, 1, 100))"
  "pillar_samples m example_pillar_grid 18 = Inr ((1, 1, 0), (1, 1, 100))"
  by (simp_all add: pillar_samples_def example_pillar_grid_def vec_at_def int_small)

lemma example_slanted_samples:
  "pillar_samples m example_slanted_grid 0 = Inr ((0, 0, 0), (1, 3, 49))"
  "pillar_samples m example_slanted_grid 6 = Inr ((0, 0, 0), (1, 3, 49))"
  "pillar_samples m example_slanted_grid 12 = Inr ((0, 0, 0), (1, 3, 49))"
  "pillar_samples m example_slanted_grid 18 = Inr ((0, 0, 0), (1, 3, 49))"
  by (simp_all add: pillar_samples_def example_slanted_grid_def vec_at_def int_small)

lemma example_corners:
  "getCellCorners m example_pillar_grid (0, 0, 0) =
     Inr ([5, 0, 5, 1, 10, 0, 10, 1], [0, 0, 1, 1, 0, 0, 1, 1],
          [50, 50, 50, 50, 100, 100, 100, 100])"
proof -
  have g: "nijk example_pillar_grid = (1, 1, 1)" "res example_pillar_grid 0 = Some 0"
      "zcorn_array example_pillar_grid = [50, 50, 50, 50, 100, 100, 100, 100]"
    by (simp_all add: example_pillar_grid_def)
  show ?thesis
    by (simp add: getCellCorners_def g example_pind example_pillar_samples Let_def vec_at_def
          upt4 example_pillar_xy)
qed

lemma example_slanted_corners:
  "getCellCorners m example_slanted_grid (0, 0, 0) =
     Inr (replicate 8 (9007199254740991 / 9007199254740992), replicate 8 3, replicate 8 49)"
proof -
  have g: "nijk example_slanted_grid = (1, 1, 1)" "res example_slanted_grid 0 = Some 0"
      "zcorn_array example_slanted_grid = [49, 49, 49, 49, 49, 49, 49, 49]"
    by (simp_all add: example_slanted_grid_def)
  show ?thesis
    by (simp add: getCellCorners_def g example_pind example_slanted_samples Let_def vec_at_def
          upt4 example_slanted_xy numeral_eq_Suc)
qed

lemma example_exact_roundings:
  "round_double (8 - 0) = 8 - 0" "round_double (0 - 64) = 0 - 64"
  "round_double (0 - 32) = 0 - 32" "round_double ((8 - 0) / (0 - 64)) = (8 - 0) / (0 - 64)"
  "round_double ((8 - 0) / (0 - 64) * (0 - 32)) = (8 - 0) / (0 - 64) * (0 - 32)"
  "round_double (0 + (8 - 0) / (0 - 64) * (0 - 32)) = 0 + (8 - 0) / (0 - 64) * (0 - 32)"
  by (simp_all add: double_eval)

lemma example_ranges:
  "in_double_range (1 - 0)" "in_double_range (0 - 49)"
  "in_double_range (double_sub 1 0 / double_sub 0 49)"
  "in_double_range (double_div (double_sub 1 0) (double_sub 0 49) * double_sub 0 49)"
  "in_double_range (0 + double_mul (double_div (double_sub 1 0) (double_sub 0 49))
     (double_sub 0 49))"
  by (simp_all add: in_double_range_def double_eval)

text \<open>
  \<^bold>\<open>C4\<close> (as amended). In \<open>getCellCorners\<close>, for each of the four pillars \<open>n\<close> of the cell, with
  top sample \<open>(xt, yt, zt)\<close> and bottom sample \<open>(xb, yb, zb)\<close> (read from COORD at \<open>pind[n]\<close>)
  and for both corner depths \<open>z = Z[n]\<close> and \<open>z = Z[n+4]\<close> read from ZCORN: when \<open>zt = zb\<close>
  the corner is \<open>(xt, yt)\<close>; otherwise \<open>x\<close> is \<open>xt + (xb - xt) / (zt - zb) * (zt - z)\<close>
  evaluated in \<open>double\<close>, every operation rounded to the nearest \<open>double\<close>, and likewise \<open>y\<close>.
  This is the exact value \<open>xt + (xb - xt) * (zt - z) / (zt - zb)\<close> when no operation rounds;
  in general it is that value up to six relative errors of at most \<open>2^-53\<close>, one for each
  operation, as long as no operation underflows or overflows. For the pillar
  \<open>(0, 0, 0, 10, 0, 100)\<close> and depth 50 the corner is \<open>x = 5\<close>, \<open>y = 0\<close>; on the degenerate
  pillar with \<open>zt = zb = 0\<close> it is \<open>x = xt = 0\<close>.
\<close>

theorem getCellCorners_interpolation:
  "(getCellCorners m g (i, j, k) = Inr (X, Y, Z) \<and> n < 4 \<longrightarrow>
      (\<exists>r xt yt zt xb yb zb.
          res g k = Some r
        \<and> pillar_samples m g
            (pind (nijk g)
               (int_mul (int_mul (int_mul r (int_add (fst (nijk g)) 1))
                           (int_add (fst (snd (nijk g))) 1)) 6)
               (i, j, k) ! n)
            = Inr ((xt, yt, zt), (xb, yb, zb))
        \<and> (\<forall>c \<in> {n, n + 4}.
              vec_at (zcorn_array g) (zind (nijk g) (i, j, k) ! c) = Inr (Z ! c)
            \<and> (X ! c, Y ! c) = pillar_xy ((xt, yt, zt), (xb, yb, zb)) (Z ! c)
            \<and> (if zt = zb then X ! c = xt \<and> Y ! c = yt
               else X ! c = double_add xt
                              (double_mul (double_div (double_sub xb xt) (double_sub zt zb))
                                 (double_sub zt (Z ! c)))
                  \<and> Y ! c = double_add yt
                              (double_mul (double_div (double_sub yb yt) (double_sub zt zb))
                                 (double_sub zt (Z ! c)))))))
   \<and> (zt' \<noteq> zb'
        \<and> round_double (xb' - xt') = xb' - xt' \<and> round_double (zt' - zb') = zt' - zb'
        \<and> round_double (zt' - z) = zt' - z
        \<and> round_double ((xb' - xt') / (zt' - zb')) = (xb' - xt') / (zt' - zb')
        \<and> round_double ((xb' - xt') / (zt' - zb') * (zt' - z))
             = (xb' - xt') / (zt' - zb') * (zt' - z)
        \<and> round_double (xt' + (xb' - xt') / (zt' - zb') * (zt' - z))
             = xt' + (xb' - xt') / (zt' - zb') * (zt' - z) \<longrightarrow>
        fst (pillar_xy ((xt', yt', zt'), (xb', yb', zb')) z)
          = xt' + (xb' - xt') * (zt' - z) / (zt' - zb'))
   \<and> (zt' \<noteq> zb'
        \<and> in_double_range (xb' - xt') \<and> in_double_range (zt' - zb')
        \<and> in_double_range (zt' - z)
        \<and> in_double_range (double_sub xb' xt' / double_sub zt' zb')
        \<and> in_double_range (double_div (double_sub xb' xt') (double_sub zt' zb')
             * double_sub zt' z)
        \<and> in_double_range (xt' + double_mul (double_div (double_sub xb' xt')
             (double_sub zt' zb')) (double_sub zt' z)) \<longrightarrow>
        (\<exists>d1 d2 d3 d4 d5 d6.
           \<bar>d1\<bar> \<le> 2 powi (- 53) \<and> \<bar>d2\<bar> \<le> 2 powi (- 53) \<and> \<bar>d3\<bar> \<le> 2 powi (- 53)
         \<and> \<bar>d4\<bar> \<le> 2 powi (- 53) \<and> \<bar>d5\<bar> \<le> 2 powi (- 53) \<and> \<bar>d6\<bar> \<le> 2 powi (- 53)
         \<and> fst (pillar_xy ((xt', yt', zt'), (xb', yb', zb')) z)
             = (xt' + (xb' - xt') * (1 + d1) / ((zt' - zb') * (1 + d2)) * (1 + d4)
                       * ((zt' - z) * (1 + d3)) * (1 + d5)) * (1 + d6)))
   \<and> snd (pillar_xy ((xt', yt', zt'), (xb', yb', zb')) z)
        = fst (pillar_xy ((yt', xt', zt'), (yb', xb', zb')) z)
   \<and> (\<not> m_radial g \<and> pillar_samples m g p = Inr ((xt', yt', zt'), (xb', yb', zb')) \<longrightarrow>
        vec_at (coord_array g) p = Inr xt' \<and> vec_at (coord_array g) (int_add p 1) = Inr yt'
      \<and> vec_at (coord_array g) (int_add p 2) = Inr zt'
      \<and> vec_at (coord_array g) (int_add p 3) = Inr xb'
      \<and> vec_at (coord_array g) (int_add p 4) = Inr yb'
      \<and> vec_at (coord_array g) (int_add p 5) = Inr zb')
   \<and> (\<exists>X Y Z. getCellCorners m example_pillar_grid (0, 0, 0) = Inr (X, Y, Z)
        \<and> pillar_samples m example_pillar_grid 0 = Inr ((0, 0, 0), (10, 0, 100))
        \<and> Z ! 0 = 50 \<and> X ! 0 = 5 \<and> Y ! 0 = 0
        \<and> pillar_samples m example_pillar_grid 6 = Inr ((0, 0, 0), (7, 7, 0))
        \<and> X ! 1 = 0 \<and> Y ! 1 = 0)"
proof (intro conjI)
  show "getCellCorners m g (i, j, k) = Inr (X, Y, Z) \<and> n < 4 \<longrightarrow>
      (\<exists>r xt yt zt xb yb zb.
          res g k = Some r
        \<and> pillar_samples m g
            (pind (nijk g)
               (int_mul (int_mul (int_mul r (int_add (fst (nijk g)) 1))
                           (int_add (fst (snd (nijk g))) 1)) 6)
               (i, j, k) ! n)
            = Inr ((xt, yt, zt), (xb, yb, zb))
        \<and> (\<forall>c \<in> {n, n + 4}.
              vec_at (zcorn_array g) (zind (nijk g) (i, j, k) ! c) = Inr (Z ! c)
            \<and> (X ! c, Y ! c) = pillar_xy ((xt, yt, zt), (xb, yb, zb)) (Z ! c)
            \<and> (if zt = zb then X ! c = xt \<and> Y ! c = yt
               else X ! c = double_add xt
                              (double_mul (double_div (double_sub xb xt) (double_sub zt zb))
                                 (double_sub zt (Z ! c)))
                  \<and> Y ! c = double_add yt
                              (double_mul (double_div (double_sub yb yt) (double_sub zt zb))
                                 (double_sub zt (Z ! c))))))"
  proof (rule impI)
    assume a: "getCellCorners m g (i, j, k) = Inr (X, Y, Z) \<and> n < 4"
    then obtain r s where r: "res g k = Some r"
      and s: "pillar_samples m g
               (pind (nijk g)
                  (int_mul (int_mul (int_mul r (int_add (fst (nijk g)) 1))
                              (int_add (fst (snd (nijk g))) 1)) 6)
                  (i, j, k) ! n)
               = Inr s"
      and z: "vec_at (zcorn_array g) (zind (nijk g) (i, j, k) ! n) = Inr (Z ! n)"
             "vec_at (zcorn_array g) (zind (nijk g) (i, j, k) ! (n + 4)) = Inr (Z ! (n + 4))"
      and c: "(X ! n, Y ! n) = pillar_xy s (Z ! n)"
             "(X ! (n + 4), Y ! (n + 4)) = pillar_xy s (Z ! (n + 4))"
      using getCellCorners_pillar [of m g i j k X Y Z n] by blast
    obtain xt yt zt xb yb zb where s': "s = ((xt, yt, zt), (xb, yb, zb))"
      by (metis prod.exhaust)
    have f: "(if zt = zb then x = xt \<and> y = yt
               else x = double_add xt
                              (double_mul (double_div (double_sub xb xt) (double_sub zt zb))
                                 (double_sub zt d))
                  \<and> y = double_add yt
                              (double_mul (double_div (double_sub yb yt) (double_sub zt zb))
                                 (double_sub zt d)))"
      if "(x, y) = pillar_xy ((xt, yt, zt), (xb, yb, zb)) d" for x y d
      using that by (simp add: pillar_xy_def split: if_splits)
    have "\<forall>c \<in> {n, n + 4}.
              vec_at (zcorn_array g) (zind (nijk g) (i, j, k) ! c) = Inr (Z ! c)
            \<and> (X ! c, Y ! c) = pillar_xy ((xt, yt, zt), (xb, yb, zb)) (Z ! c)
            \<and> (if zt = zb then X ! c = xt \<and> Y ! c = yt
               else X ! c = double_add xt
                              (double_mul (double_div (double_sub xb xt) (double_sub zt zb))
                                 (double_sub zt (Z ! c)))
                  \<and> Y ! c = double_add yt
                              (double_mul (double_div (double_sub yb yt) (double_sub zt zb))
                                 (double_sub zt (Z ! c))))"
      using z c f [of "X ! n" "Y ! n" "Z ! n"] f [of "X ! (n + 4)" "Y ! (n + 4)" "Z ! (n + 4)"]
      unfolding s' by blast
    with r s s' show "\<exists>r xt yt zt xb yb zb.
          res g k = Some r
        \<and> pillar_samples m g
            (pind (nijk g)
               (int_mul (int_mul (int_mul r (int_add (fst (nijk g)) 1))
                           (int_add (fst (snd (nijk g))) 1)) 6)
               (i, j, k) ! n)
            = Inr ((xt, yt, zt), (xb, yb, zb))
        \<and> (\<forall>c \<in> {n, n + 4}.
              vec_at (zcorn_array g) (zind (nijk g) (i, j, k) ! c) = Inr (Z ! c)
            \<and> (X ! c, Y ! c) = pillar_xy ((xt, yt, zt), (xb, yb, zb)) (Z ! c)
            \<and> (if zt = zb then X ! c = xt \<and> Y ! c = yt
               else X ! c = double_add xt
                              (double_mul (double_div (double_sub xb xt) (double_sub zt zb))
                                 (double_sub zt (Z ! c)))
                  \<and> Y ! c = double_add yt
                              (double_mul (double_div (double_sub yb yt) (double_sub zt zb))
                                 (double_sub zt (Z ! c)))))"
      by blast
  qed
next
  show "zt' \<noteq> zb'
        \<and> round_double (xb' - xt') = xb' - xt' \<and> round_double (zt' - zb') = zt' - zb'
        \<and> round_double (zt' - z) = zt' - z
        \<and> round_double ((xb' - xt') / (zt' - zb')) = (xb' - xt') / (zt' - zb')
        \<and> round_double ((xb' - xt') / (zt' - zb') * (zt' - z))
             = (xb' - xt') / (zt' - zb') * (zt' - z)
        \<and> round_double (xt' + (xb' - xt') / (zt' - zb') * (zt' - z))
             = xt' + (xb' - xt') / (zt' - zb') * (zt' - z) \<longrightarrow>
        fst (pillar_xy ((xt', yt', zt'), (xb', yb', zb')) z)
          = xt' + (xb' - xt') * (zt' - z) / (zt' - zb')"
    using pillar_xy_exact [of zt' zb' xb' xt' z yt' yb'] by blast
next
  show "zt' \<noteq> zb'
        \<and> in_double_range (xb' - xt') \<and> in_double_range (zt' - zb')
        \<and> in_double_range (zt' - z)
        \<and> in_double_range (double_sub xb' xt' / double_sub zt' zb')
        \<and> in_double_range (double_div (double_sub xb' xt') (double_sub zt' zb')
             * double_sub zt' z)
        \<and> in_double_range (xt' + double_mul (double_div (double_sub xb' xt')
             (double_sub zt' zb')) (double_sub zt' z)) \<longrightarrow>
        (\<exists>d1 d2 d3 d4 d5 d6.
           \<bar>d1\<bar> \<le> 2 powi (- 53) \<and> \<bar>d2\<bar> \<le> 2 powi (- 53) \<and> \<bar>d3\<bar> \<le> 2 powi (- 53)
         \<and> \<bar>d4\<bar> \<le> 2 powi (- 53) \<and> \<bar>d5\<bar> \<le> 2 powi (- 53) \<and> \<bar>d6\<bar> \<le> 2 powi (- 53)
         \<and> fst (pillar_xy ((xt', yt', zt'), (xb', yb', zb')) z)
             = (xt' + (xb' - xt') * (1 + d1) / ((zt' - zb') * (1 + d2)) * (1 + d4)
                       * ((zt' - z) * (1 + d3)) * (1 + d5)) * (1 + d6))"
    using pillar_xy_accuracy [of zt' zb' xb' xt' z yt' yb'] by blast
next
  show "snd (pillar_xy ((xt', yt', zt'), (xb', yb', zb')) z)
        = fst (pillar_xy ((yt', xt', zt'), (yb', xb', zb')) z)"
    by (rule pillar_xy_swap)
next
  show "\<not> m_radial g \<and> pillar_samples m g p = Inr ((xt', yt', zt'), (xb', yb', zb')) \<longrightarrow>
        vec_at (coord_array g) p = Inr xt' \<and> vec_at (coord_array g) (int_add p 1) = Inr yt'
      \<and> vec_at (coord_array g) (int_add p 2) = Inr zt'
      \<and> vec_at (coord_array g) (int_add p 3) = Inr xb'
      \<and> vec_at (coord_array g) (int_add p 4) = Inr yb'
      \<and> vec_at (coord_array g) (int_add p 5) = Inr zb'"
    using pillar_samples_cartesian by blast
next
  show "\<exists>X Y Z. getCellCorners m example_pillar_grid (0, 0, 0) = Inr (X, Y, Z)
        \<and> pillar_samples m example_pillar_grid 0 = Inr ((0, 0, 0), (10, 0, 100))
        \<and> Z ! 0 = 50 \<and> X ! 0 = 5 \<and> Y ! 0 = 0
        \<and> pillar_samples m example_pillar_grid 6 = Inr ((0, 0, 0), (7, 7, 0))
        \<and> X ! 1 = 0 \<and> Y ! 1 = 0"
    by (simp add: example_corners example_pillar_samples)
qed

theorem getCellCorners_interpolation_witness:
  "getCellCorners example_libm example_pillar_grid (0, 0, 0) =
     Inr ([5, 0, 5, 1, 10, 0, 10, 1], [0, 0, 1, 1, 0, 0, 1, 1],
          [50, 50, 50, 50, 100, 100, 100, 100])
   \<and> (2::nat) < 4
   \<and> (\<exists>r xt yt zt xb yb zb.
          res example_pillar_grid 0 = Some r
        \<and> pillar_samples example_libm example_pillar_grid
            (pind (nijk example_pillar_grid)
               (int_mul (int_mul (int_mul r (int_add (fst (nijk example_pillar_grid)) 1))
                           (int_add (fst (snd (nijk example_pillar_grid))) 1)) 6)
               (0, 0, 0) ! 2)
            = Inr ((xt, yt, zt), (xb, yb, zb))
        \<and> zt \<noteq> zb
        \<and> [5, 0, 5, 1, 10, 0, 10, 1] ! 2
            = double_add xt
                (double_mul (double_div (double_sub xb xt) (double_sub zt zb)) (double_sub zt 50))
        \<and> [5, 0, 5, 1, 10, 0, 10, 1] ! (2 + 4)
            = double_add xt
                (double_mul (double_div (double_sub xb xt) (double_sub zt zb))
                   (double_sub zt 100)))
   \<and> round_double ((8 - 0) / (0 - 64)) = (8 - 0) / (0 - 64)
   \<and> fst (pillar_xy ((0, 0, 0), (8, 0, 64)) 32) = 0 + (8 - 0) * (0 - 32) / (0 - 64)
   \<and> in_double_range (double_sub 1 0 / double_sub 0 49)
   \<and> (\<exists>d1 d2 d3 d4 d5 d6.
           \<bar>d1\<bar> \<le> 2 powi (- 53) \<and> \<bar>d2\<bar> \<le> 2 powi (- 53) \<and> \<bar>d3\<bar> \<le> 2 powi (- 53)
         \<and> \<bar>d4\<bar> \<le> 2 powi (- 53) \<and> \<bar>d5\<bar> \<le> 2 powi (- 53) \<and> \<bar>d6\<bar> \<le> 2 powi (- 53)
         \<and> fst (pillar_xy ((0, 0, 0), (1, 3, 49)) 49)
             = (0 + (1 - 0) * (1 + d1) / ((0 - 49) * (1 + d2)) * (1 + d4)
                       * ((0 - 49) * (1 + d3)) * (1 + d5)) * (1 + d6))
   \<and> \<not> m_radial example_pillar_grid
   \<and> pillar_samples example_libm example_pillar_grid 12 = Inr ((0, 1, 0), (10, 1, 100))
   \<and> vec_at (coord_array example_pillar_grid) (int_add 12 3) = Inr 10"
proof -
  let ?m = example_libm
  let ?X = "[5, 0, 5, 1, 10, 0, 10, 1] :: real list"
  let ?Y = "[0, 0, 1, 1, 0, 0, 1, 1] :: real list"
  let ?Z = "[50, 50, 50, 50, 100, 100, 100, 100] :: real list"
  have e: "getCellCorners ?m example_pillar_grid (0, 0, 0) = Inr (?X, ?Y, ?Z)"
    by (rule example_corners)
  have p: "pillar_samples ?m example_pillar_grid 12 = Inr ((0, 1, 0), (10, 1, 100))"
    by (rule example_pillar_samples)
  have m: "\<not> m_radial example_pillar_grid" by (simp add: example_pillar_grid_def)
  have g: "nijk example_pillar_grid = (1, 1, 1)" "res example_pillar_grid 0 = Some 0"
    by (simp_all add: example_pillar_grid_def)
  have q: "pind (nijk example_pillar_grid)
               (int_mul (int_mul (int_mul 0 (int_add (fst (nijk example_pillar_grid)) 1))
                           (int_add (fst (snd (nijk example_pillar_grid))) 1)) 6)
               (0, 0, 0) ! 2 = 12"
    by (simp add: g example_pind)
  have h1: "getCellCorners ?m example_pillar_grid (0, 0, 0) = Inr (?X, ?Y, ?Z) \<and> (2::nat) < 4"
    using e by simp
  from mp [OF getCellCorners_interpolation [where m = ?m and g = example_pillar_grid
      and i = 0 and j = 0 and k = 0 and X = ?X and Y = ?Y and Z = ?Z and n = 2,
      THEN conjunct1] h1]
  obtain r xt yt zt xb yb zb where
      r: "res example_pillar_grid 0 = Some r"
    and s: "pillar_samples ?m example_pillar_grid
            (pind (nijk example_pillar_grid)
               (int_mul (int_mul (int_mul r (int_add (fst (nijk example_pillar_grid)) 1))
                           (int_add (fst (snd (nijk example_pillar_grid))) 1)) 6)
               (0, 0, 0) ! 2)
            = Inr ((xt, yt, zt), (xb, yb, zb))"
    and f: "\<forall>c \<in> {2, 2 + 4}.
              (if zt = zb then ?X ! c = xt \<and> ?Y ! c = yt
               else ?X ! c = double_add xt
                              (double_mul (double_div (double_sub xb xt) (double_sub zt zb))
                                 (double_sub zt (?Z ! c)))
                  \<and> ?Y ! c = double_add yt
                              (double_mul (double_div (double_sub yb yt) (double_sub zt zb))
                                 (double_sub zt (?Z ! c))))"
    by blast
  from r g have r0: "r = 0" by simp
  from s q p r0 have v: "xt = 0" "yt = 1" "zt = 0" "xb = 10" "yb = 1" "zb = 100" by simp_all
  have ne: "zt \<noteq> zb" using v by simp
  from f ne have g1: "?X ! 2 = double_add xt
                (double_mul (double_div (double_sub xb xt) (double_sub zt zb)) (double_sub zt 50))"
    and g2: "?X ! (2 + 4) = double_add xt
                (double_mul (double_div (double_sub xb xt) (double_sub zt zb))
                   (double_sub zt 100))"
    by simp_all
  have c1: "\<exists>r xt yt zt xb yb zb.
          res example_pillar_grid 0 = Some r
        \<and> pillar_samples ?m example_pillar_grid
            (pind (nijk example_pillar_grid)
               (int_mul (int_mul (int_mul r (int_add (fst (nijk example_pillar_grid)) 1))
                           (int_add (fst (snd (nijk example_pillar_grid))) 1)) 6)
               (0, 0, 0) ! 2)
            = Inr ((xt, yt, zt), (xb, yb, zb))
        \<and> zt \<noteq> zb
        \<and> ?X ! 2
            = double_add xt
                (double_mul (double_div (double_sub xb xt) (double_sub zt zb)) (double_sub zt 50))
        \<and> ?X ! (2 + 4)
            = double_add xt
                (double_mul (double_div (double_sub xb xt) (double_sub zt zb))
                   (double_sub zt 100))"
    using r s g1 g2 ne
    by (intro exI [of _ r] exI [of _ xt] exI [of _ yt] exI [of _ zt]
          exI [of _ xb] exI [of _ yb] exI [of _ zb] conjI)
  have h2: "(0::real) \<noteq> 64
        \<and> round_double (8 - 0) = 8 - 0 \<and> round_double (0 - 64) = 0 - 64
        \<and> round_double (0 - 32) = 0 - 32
        \<and> round_double ((8 - 0) / (0 - 64)) = (8 - 0) / (0 - 64)
        \<and> round_double ((8 - 0) / (0 - 64) * (0 - 32)) = (8 - 0) / (0 - 64) * (0 - 32)
        \<and> round_double (0 + (8 - 0) / (0 - 64) * (0 - 32))
             = 0 + (8 - 0) / (0 - 64) * (0 - 32)"
    by (intro conjI example_exact_roundings) simp
  have c2: "fst (pillar_xy ((0, 0, 0), (8, 0, 64)) 32) = 0 + (8 - 0) * (0 - 32) / (0 - 64)"
    by (rule mp [OF getCellCorners_interpolation [where zt' = 0 and zb' = 64 and xt' = 0
      and xb' = 8 and yt' = 0 and yb' = 0 and z = 32, THEN conjunct2, THEN conjunct1] h2])
  have h3: "(0::real) \<noteq> 49
        \<and> in_double_range (1 - 0) \<and> in_double_range (0 - 49)
        \<and> in_double_range (0 - 49)
        \<and> in_double_range (double_sub 1 0 / double_sub 0 49)
        \<and> in_double_range (double_div (double_sub 1 0) (double_sub 0 49)
             * double_sub 0 49)
        \<and> in_double_range (0 + double_mul (double_div (double_sub 1 0)
             (double_sub 0 49)) (double_sub 0 49))"
    by (intro conjI example_ranges) simp
  have c3: "\<exists>d1 d2 d3 d4 d5 d6.
           \<bar>d1\<bar> \<le> 2 powi (- 53) \<and> \<bar>d2\<bar> \<le> 2 powi (- 53) \<and> \<bar>d3\<bar> \<le> 2 powi (- 53)
         \<and> \<bar>d4\<bar> \<le> 2 powi (- 53) \<and> \<bar>d5\<bar> \<le> 2 powi (- 53) \<and> \<bar>d6\<bar> \<le> 2 powi (- 53)
         \<and> fst (pillar_xy ((0, 0, 0), (1, 3, 49)) 49)
             = (0 + (1 - 0) * (1 + d1) / ((0 - 49) * (1 + d2)) * (1 + d4)
                       * ((0 - 49) * (1 + d3)) * (1 + d5)) * (1 + d6)"
    by (rule mp [OF getCellCorners_interpolation [where zt' = 0 and zb' = 49 and xt' = 0
      and xb' = 1 and yt' = 0 and yb' = 3 and z = 49,
      THEN conjunct2, THEN conjunct2, THEN conjunct1] h3])
  have h4: "\<not> m_radial example_pillar_grid
      \<and> pillar_samples ?m example_pillar_grid 12 = Inr ((0, 1, 0), (10, 1, 100))"
    using m p by simp
  from mp [OF getCellCorners_interpolation [where m = ?m and g = example_pillar_grid
      and p = 12 and xt' = 0 and yt' = 1 and zt' = 0 and xb' = 10 and yb' = 1 and zb' = 100,
      THEN conjunct2, THEN conjunct2, THEN conjunct2, THEN conjunct2, THEN conjunct1] h4]
  have c4: "vec_at (coord_array example_pillar_grid) (int_add 12 3) = Inr 10" by blast
  show ?thesis
    by (intro conjI e c1 c2 c3 c4 m p example_exact_roundings(4) example_ranges(3)) simp
qed

theorem getCellCorners_rounding_counterexample:
  "getCellCorners example_libm example_slanted_grid (0, 0, 0) =
     Inr (replicate 8 (9007199254740991 / 9007199254740992), replicate 8 3, replicate 8 49)
   \<and> pillar_samples example_libm example_slanted_grid 0 = Inr ((0, 0, 0), (1, 3, 49))
   \<and> vec_at (zcorn_array example_slanted_grid) 0 = Inr 49
   \<and> (0::real) + (1 - 0) * (0 - 49) / (0 - 49) = 1
   \<and> (9007199254740991 / 9007199254740992 :: real) \<noteq> 1"
proof -
  have "zcorn_array example_slanted_grid = [49, 49, 49, 49, 49, 49, 49, 49]"
    by (simp add: example_slanted_grid_def)
  then show ?thesis
    by (simp add: example_slanted_corners example_slanted_samples vec_at_def)
qed

section \<open>Properties of the key strings\<close>

lemma split_packed_region_pair:
  assumes "0 \<le> r1" "r1 < 32768" "0 < r1 + 32768 * (r2 + 10)"
  shows "splitSummaryNumber (r1 + 32768 * (r2 + 10)) = (r1, r2)"
proof -
  let ?n = "r1 + 32768 * (r2 + 10)"
  have "?n mod 32768 = r1 mod 32768" by (rule mod_mult_self2)
  then have m: "?n mod 32768 = r1" using assms(1,2) by simp
  have "?n div 32768 = (r2 + 10) + r1 div 32768" by (rule div_mult_self2) simp
  then have d: "?n div 32768 = r2 + 10" using assms(1,2) by simp
  have "?n smod 32768 = ?n mod 32768" using assms(3) by (intro smod_nonneg_pos) simp_all
  moreover have "?n sdiv 32768 = ?n div 32768" using assms(3) by (intro sdiv_nonneg_pos) simp_all
  ultimately show ?thesis using m d by (simp add: splitSummaryNumber_def)
qed

lemma makeKeyString_R:
  assumes "str_at kw 0 = CHR ''R''" "0 < num" "3 \<le> length kw"
  shows "makeKeyString m nI nJ kw wg num lgr =
           (if kw = ''RORFR'' then Inr (kw @ '':'' @ fmt_int num)
            else if take 2 (drop 2 kw) = ''FR'' \<or> take 2 (drop 2 kw) = ''FT''
                    \<or> take 2 (drop 3 kw) = ''FR'' \<or> take 2 (drop 3 kw) = ''FT''
            then Inr (kw @ '':'' @ fmt_int (fst (splitSummaryNumber num)) @ ''-''
                        @ fmt_int (snd (splitSummaryNumber num)))
            else Inr (kw @ '':'' @ fmt_int num))"
  using assms
  by (simp add: makeKeyString_def Let_def substr_def ebind_def split: prod.splits)

lemma makeKeyString_R_nonpositive:
  assumes "str_at kw 0 = CHR ''R''" "num \<le> 0"
  shows "makeKeyString m nI nJ kw wg num lgr = Inr ''''"
  using assms by (simp add: makeKeyString_def Let_def)

lemma makeKeyString_R_examples:
  "makeKeyString m nI nJ ''ROFR'' '':+:+:+:+'' 425986 None = Inr ''ROFR:2-3''"
  "makeKeyString m nI nJ ''RXF'' '':+:+:+:+'' 426242 None = Inr ''RXF:426242''"
  by (simp_all add: makeKeyString_def str_at_def substr_def splitSummaryNumber_def Let_def
       signed_divide_int_def signed_modulo_int_def fmt_int_def fmt_nat.simps ebind_def)

text \<open>
  \<^bold>\<open>C5\<close> (as amended). For a keyword of at least three characters that starts with \<open>R\<close>,
  \<open>makeKeyString\<close> returns the empty key when \<open>num \<le> 0\<close>; otherwise \<open>KEYWORD:num\<close>, except
  that a keyword other than \<open>RORFR\<close> with \<open>FR\<close> or \<open>FT\<close> at positions 3-4 or 4-5 and
  \<open>num = r1 + 32768*(r2+10)\<close>, \<open>0 \<le> r1 < 32768\<close>, gives \<open>KEYWORD:r1-r2\<close>. So \<open>ROFR\<close> with
  \<open>num = 2 + 32768*(3+10) = 425986\<close> gives \<open>ROFR:2-3\<close>, while \<open>RXF\<close>, which has neither
  \<open>FR\<close> nor \<open>FT\<close>, keeps its number: \<open>RXF:426242\<close>.
\<close>

theorem makeKeyString_region:
  "(str_at kw 0 = CHR ''R'' \<and> num \<le> 0 \<longrightarrow> makeKeyString m nI nJ kw wg num lgr = Inr '''')
   \<and> (str_at kw 0 = CHR ''R'' \<and> 0 < num \<and> 3 \<le> length kw \<longrightarrow>
        (if kw \<noteq> ''RORFR''
            \<and> (take 2 (drop 2 kw) = ''FR'' \<or> take 2 (drop 2 kw) = ''FT''
                 \<or> take 2 (drop 3 kw) = ''FR'' \<or> take 2 (drop 3 kw) = ''FT'')
         then (\<forall>r1 r2. 0 \<le> r1 \<and> r1 < 32768 \<and> num = r1 + 32768 * (r2 + 10) \<longrightarrow>
                 makeKeyString m nI nJ kw wg num lgr
                   = Inr (kw @ '':'' @ fmt_int r1 @ ''-'' @ fmt_int r2))
         else makeKeyString m nI nJ kw wg num lgr = Inr (kw @ '':'' @ fmt_int num)))
   \<and> (2::int) + 32768 * (3 + 10) = 425986
   \<and> makeKeyString m nI nJ ''ROFR'' '':+:+:+:+'' 425986 None = Inr ''ROFR:2-3''
   \<and> makeKeyString m nI nJ ''RXF'' '':+:+:+:+'' 426242 None = Inr ''RXF:426242''"
proof (intro conjI)
  show "str_at kw 0 = CHR ''R'' \<and> num \<le> 0 \<longrightarrow> makeKeyString m nI nJ kw wg num lgr = Inr ''''"
    by (simp add: makeKeyString_R_nonpositive)
next
  show "str_at kw 0 = CHR ''R'' \<and> 0 < num \<and> 3 \<le> length kw \<longrightarrow>
        (if kw \<noteq> ''RORFR''
            \<and> (take 2 (drop 2 kw) = ''FR'' \<or> take 2 (drop 2 kw) = ''FT''
                 \<or> take 2 (drop 3 kw) = ''FR'' \<or> take 2 (drop 3 kw) = ''FT'')
         then (\<forall>r1 r2. 0 \<le> r1 \<and> r1 < 32768 \<and> num = r1 + 32768 * (r2 + 10) \<longrightarrow>
                 makeKeyString m nI nJ kw wg num lgr
                   = Inr (kw @ '':'' @ fmt_int r1 @ ''-'' @ fmt_int r2))
         else makeKeyString m nI nJ kw wg num lgr = Inr (kw @ '':'' @ fmt_int num))"
  proof (rule impI)
    assume a: "str_at kw 0 = CHR ''R'' \<and> 0 < num \<and> 3 \<le> length kw"
    then have k: "makeKeyString m nI nJ kw wg num lgr =
           (if kw = ''RORFR'' then Inr (kw @ '':'' @ fmt_int num)
            else if take 2 (drop 2 kw) = ''FR'' \<or> take 2 (drop 2 kw) = ''FT''
                    \<or> take 2 (drop 3 kw) = ''FR'' \<or> take 2 (drop 3 kw) = ''FT''
            then Inr (kw @ '':'' @ fmt_int (fst (splitSummaryNumber num)) @ ''-''
                        @ fmt_int (snd (splitSummaryNumber num)))
            else Inr (kw @ '':'' @ fmt_int num))"
      by (intro makeKeyString_R) simp_all
    have s: "splitSummaryNumber num = (r1, r2)"
      if "0 \<le> r1 \<and> r1 < 32768 \<and> num = r1 + 32768 * (r2 + 10)" for r1 r2
      using that a split_packed_region_pair [of r1 r2] by simp
    show "if kw \<noteq> ''RORFR''
            \<and> (take 2 (drop 2 kw) = ''FR'' \<or> take 2 (drop 2 kw) = ''FT''
                 \<or> take 2 (drop 3 kw) = ''FR'' \<or> take 2 (drop 3 kw) = ''FT'')
         then (\<forall>r1 r2. 0 \<le> r1 \<and> r1 < 32768 \<and> num = r1 + 32768 * (r2 + 10) \<longrightarrow>
                 makeKeyString m nI nJ kw wg num lgr
                   = Inr (kw @ '':'' @ fmt_int r1 @ ''-'' @ fmt_int r2))
         else makeKeyString m nI nJ kw wg num lgr = Inr (kw @ '':'' @ fmt_int num)"
    proof (cases "kw \<noteq> ''RORFR''
            \<and> (take 2 (drop 2 kw) = ''FR'' \<or> take 2 (drop 2 kw) = ''FT''
                 \<or> take 2 (drop 3 kw) = ''FR'' \<or> take 2 (drop 3 kw) = ''FT'')")
      case True
      then have "makeKeyString m nI nJ kw wg num lgr
          = Inr (kw @ '':'' @ fmt_int (fst (splitSummaryNumber num)) @ ''-''
                        @ fmt_int (snd (splitSummaryNumber num)))"
        using k by simp
      then have "\<forall>r1 r2. 0 \<le> r1 \<and> r1 < 32768 \<and> num = r1 + 32768 * (r2 + 10) \<longrightarrow>
                 makeKeyString m nI nJ kw wg num lgr
                   = Inr (kw @ '':'' @ fmt_int r1 @ ''-'' @ fmt_int r2)"
        using s by (metis fst_conv snd_conv)
      then show ?thesis by (subst if_P [OF True])
    next
      case False
      then have "makeKeyString m nI nJ kw wg num lgr = Inr (kw @ '':'' @ fmt_int num)"
        using k by auto
      then show ?thesis by (subst if_not_P [OF False])
    qed
  qed
next
  show "(2::int) + 32768 * (3 + 10) = 425986" by simp
next
  show "makeKeyString m nI nJ ''ROFR'' '':+:+:+:+'' 425986 None = Inr ''ROFR:2-3''"
    by (rule makeKeyString_R_examples)
next
  show "makeKeyString m nI nJ ''RXF'' '':+:+:+:+'' 426242 None = Inr ''RXF:426242''"
    by (rule makeKeyString_R_examples)
qed

theorem makeKeyString_region_witness:
  "str_at ''RNLFT'' 0 = CHR ''R'' \<and> (0::int) < 5 + 32768 * (7 + 10) \<and> 3 \<le> length ''RNLFT''
   \<and> ''RNLFT'' \<noteq> ''RORFR'' \<and> take 2 (drop 3 ''RNLFT'') = ''FT''
   \<and> (0::int) \<le> 5 \<and> (5::int) < 32768
   \<and> makeKeyString (\<lambda>_. False) 20 10 ''RNLFT'' '':+:+:+:+'' (5 + 32768 * (7 + 10)) None
        = Inr ''RNLFT:5-7''
   \<and> str_at ''RPR'' 0 = CHR ''R'' \<and> (0::int) \<le> 0
   \<and> makeKeyString (\<lambda>_. False) 20 10 ''RPR'' '':+:+:+:+'' 0 None = Inr ''''
   \<and> makeKeyString (\<lambda>_. False) 20 10 ''RPR'' '':+:+:+:+'' 1 None = Inr ''RPR:1''"
proof -
  note t = makeKeyString_region [of "''RNLFT''" "5 + 32768 * (7 + 10)" "\<lambda>_. False" 20 10
      "'':+:+:+:+''" None]
  have h: "str_at ''RNLFT'' 0 = CHR ''R''" "(0::int) < 5 + 32768 * (7 + 10)"
    "3 \<le> length ''RNLFT''" "''RNLFT'' \<noteq> ''RORFR''" "take 2 (drop 3 ''RNLFT'') = ''FT''"
    by (simp_all add: str_at_def)
  from t h have "\<forall>r1 r2. 0 \<le> r1 \<and> r1 < 32768 \<and> (5::int) + 32768 * (7 + 10) = r1 + 32768 * (r2 + 10) \<longrightarrow>
      makeKeyString (\<lambda>_. False) 20 10 ''RNLFT'' '':+:+:+:+'' (5 + 32768 * (7 + 10)) None
        = Inr (''RNLFT'' @ '':'' @ fmt_int r1 @ ''-'' @ fmt_int r2)"
    by simp
  then have a: "makeKeyString (\<lambda>_. False) 20 10 ''RNLFT'' '':+:+:+:+'' (5 + 32768 * (7 + 10)) None
        = Inr (''RNLFT'' @ '':'' @ fmt_int 5 @ ''-'' @ fmt_int 7)"
    by (elim allE [of _ 5] allE [of _ 7]) simp
  note u = makeKeyString_region [of "''RPR''" 0 "\<lambda>_. False" 20 10 "'':+:+:+:+''" None]
  have b: "makeKeyString (\<lambda>_. False) 20 10 ''RPR'' '':+:+:+:+'' 0 None = Inr ''''"
    using u by (simp add: str_at_def)
  note v = makeKeyString_region [of "''RPR''" 1 "\<lambda>_. False" 20 10 "'':+:+:+:+''" None]
  have c: "makeKeyString (\<lambda>_. False) 20 10 ''RPR'' '':+:+:+:+'' 1 None = Inr ''RPR:1''"
    using v by (simp add: str_at_def fmt_int_def fmt_nat.simps)
  show ?thesis
    using a b c h by (simp add: fmt_int_def fmt_nat.simps str_at_def)
qed

theorem makeKeyString_RXF_counterexample:
  "makeKeyString (\<lambda>_. False) 20 10 ''RXF'' '':+:+:+:+'' 426242 None = Inr ''RXF:426242''
   \<and> makeKeyString (\<lambda>_. False) 20 10 ''RXF'' '':+:+:+:+'' 426242 None \<noteq> Inr ''RXF:2-3''
   \<and> (2::int) + 32768 * (3 + 10) \<noteq> 426242"
  by (simp add: makeKeyString_def str_at_def substr_def Let_def fmt_int_def fmt_nat.simps ebind_def)

lemma esmry_ijk_positive_dims:
  assumes "0 < nI" "0 < nJ" "0 < num"
  shows "esmry_ijk_from_global_index nI nJ num =
           Inr (1 + (num - 1) mod nI, 1 + ((num - 1) div nI) mod nJ, 1 + ((num - 1) div nI) div nJ)"
proof -
  have g: "0 \<le> num - 1" using assms(3) by simp
  have q: "0 \<le> (num - 1) div nI" using g assms(1) by (simp add: pos_imp_zdiv_nonneg_iff)
  show ?thesis
    using assms(1,2) g q
    by (simp add: esmry_ijk_from_global_index_def Let_def sdiv_nonneg_pos smod_nonneg_pos)
qed

lemma esmry_ijk_one_based:
  fixes nI nJ num :: int
  assumes "0 < nI" "0 < nJ" "0 < num"
  shows "1 \<le> 1 + (num - 1) mod nI" "1 + (num - 1) mod nI \<le> nI"
    "1 \<le> 1 + ((num - 1) div nI) mod nJ" "1 + ((num - 1) div nI) mod nJ \<le> nJ"
    "1 \<le> 1 + ((num - 1) div nI) div nJ"
    "((num - 1) mod nI) + (((num - 1) div nI) mod nJ) * nI
        + (((num - 1) div nI) div nJ) * nI * nJ = num - 1"
proof -
  have g: "0 \<le> num - 1" using assms(3) by simp
  have q: "0 \<le> (num - 1) div nI" using g assms(1) by (simp add: pos_imp_zdiv_nonneg_iff)
  have i: "0 \<le> (num - 1) mod nI" "(num - 1) mod nI < nI"
    using assms(1) by (rule pos_mod_sign, rule pos_mod_bound)
  show "1 \<le> 1 + (num - 1) mod nI" using i(1) by linarith
  show "1 + (num - 1) mod nI \<le> nI" using i(2) by linarith
  have j: "0 \<le> ((num - 1) div nI) mod nJ" "((num - 1) div nI) mod nJ < nJ"
    using assms(2) by (rule pos_mod_sign, rule pos_mod_bound)
  show "1 \<le> 1 + ((num - 1) div nI) mod nJ" using j(1) by linarith
  show "1 + ((num - 1) div nI) mod nJ \<le> nJ" using j(2) by linarith
  show "1 \<le> 1 + ((num - 1) div nI) div nJ"
    using q assms(2) by (simp add: pos_imp_zdiv_nonneg_iff)
  have "((num - 1) div nI) mod nJ + ((num - 1) div nI) div nJ * nJ = (num - 1) div nI"
    by (rule mod_div_mult_eq)
  then have "(((num - 1) div nI) mod nJ) * nI + (((num - 1) div nI) div nJ) * nI * nJ
      = ((num - 1) div nI) * nI"
    by (metis distrib_right mult.assoc mult.commute)
  moreover have "(num - 1) mod nI + ((num - 1) div nI) * nI = num - 1"
    by (rule mod_div_mult_eq)
  ultimately show "((num - 1) mod nI) + (((num - 1) div nI) mod nJ) * nI
        + (((num - 1) div nI) div nJ) * nI * nJ = num - 1"
    by linarith
qed

lemma makeKeyString_B:
  assumes "str_at kw 0 = CHR ''B''" "0 < num"
  shows "makeKeyString m nI nJ kw wg num lgr =
           ebind (esmry_ijk_from_global_index nI nJ num) (\<lambda>(i, j, k).
                Inr (kw @ '':'' @ fmt_int i @ '','' @ fmt_int j @ '','' @ fmt_int k))"
  using assms by (simp add: makeKeyString_def Let_def)

lemma makeKeyString_B_nonpositive:
  assumes "str_at kw 0 = CHR ''B''" "num \<le> 0"
  shows "makeKeyString m nI nJ kw wg num lgr = Inr ''''"
  using assms by (simp add: makeKeyString_def Let_def)

lemma makeKeyString_BPR_example:
  "makeKeyString m 20 10 ''BPR'' wg 12675 lgr = Inr ''BPR:15,4,64''"
  by (simp add: makeKeyString_def str_at_def esmry_ijk_from_global_index_def Let_def
       signed_divide_int_def signed_modulo_int_def fmt_int_def fmt_nat.simps ebind_def)

text \<open>
  \<^bold>\<open>C6\<close> (as amended). For a keyword that starts with \<open>B\<close>, \<open>makeKeyString\<close> returns the
  empty key when \<open>num \<le> 0\<close>, and otherwise, on positive \<open>nI\<close> and \<open>nJ\<close>, the key
  \<open>KEYWORD:i,j,k\<close> where \<open>(i, j, k)\<close> is what \<open>ESmry::ijk_from_global_index\<close> computes: the
  1-based coordinates of the cell with 1-based number \<open>num\<close>, that is
  \<open>num - 1 = (i-1) + (j-1)*nI + (k-1)*nI*nJ\<close> with \<open>1 \<le> i \<le> nI\<close>, \<open>1 \<le> j \<le> nJ\<close>, \<open>1 \<le> k\<close>.
  For \<open>BPR\<close> with \<open>num = 12675\<close> and \<open>nI = 20\<close>, \<open>nJ = 10\<close> the key is \<open>BPR:15,4,64\<close>.
\<close>

theorem makeKeyString_block:
  "(str_at kw 0 = CHR ''B'' \<and> num \<le> 0 \<longrightarrow> makeKeyString m nI nJ kw wg num lgr = Inr '''')
   \<and> (str_at kw 0 = CHR ''B'' \<and> 0 < num \<and> 0 < nI \<and> 0 < nJ \<longrightarrow>
        (\<exists>i j k. esmry_ijk_from_global_index nI nJ num = Inr (i, j, k)
           \<and> makeKeyString m nI nJ kw wg num lgr
                = Inr (kw @ '':'' @ fmt_int i @ '','' @ fmt_int j @ '','' @ fmt_int k)
           \<and> 1 \<le> i \<and> i \<le> nI \<and> 1 \<le> j \<and> j \<le> nJ \<and> 1 \<le> k
           \<and> (i - 1) + (j - 1) * nI + (k - 1) * nI * nJ = num - 1))
   \<and> makeKeyString m 20 10 ''BPR'' wg 12675 lgr = Inr ''BPR:15,4,64''"
proof (intro conjI)
  show "str_at kw 0 = CHR ''B'' \<and> num \<le> 0 \<longrightarrow> makeKeyString m nI nJ kw wg num lgr = Inr ''''"
    by (simp add: makeKeyString_B_nonpositive)
next
  show "str_at kw 0 = CHR ''B'' \<and> 0 < num \<and> 0 < nI \<and> 0 < nJ \<longrightarrow>
        (\<exists>i j k. esmry_ijk_from_global_index nI nJ num = Inr (i, j, k)
           \<and> makeKeyString m nI nJ kw wg num lgr
                = Inr (kw @ '':'' @ fmt_int i @ '','' @ fmt_int j @ '','' @ fmt_int k)
           \<and> 1 \<le> i \<and> i \<le> nI \<and> 1 \<le> j \<and> j \<le> nJ \<and> 1 \<le> k
           \<and> (i - 1) + (j - 1) * nI + (k - 1) * nI * nJ = num - 1)"
  proof (rule impI)
    assume a: "str_at kw 0 = CHR ''B'' \<and> 0 < num \<and> 0 < nI \<and> 0 < nJ"
    then have h: "0 < nI" "0 < nJ" "0 < num" by simp_all
    let ?i = "1 + (num - 1) mod nI"
    let ?j = "1 + ((num - 1) div nI) mod nJ"
    let ?k = "1 + ((num - 1) div nI) div nJ"
    have e: "esmry_ijk_from_global_index nI nJ num = Inr (?i, ?j, ?k)"
      by (rule esmry_ijk_positive_dims [OF h])
    have k: "makeKeyString m nI nJ kw wg num lgr
                = Inr (kw @ '':'' @ fmt_int ?i @ '','' @ fmt_int ?j @ '','' @ fmt_int ?k)"
      using a by (simp add: makeKeyString_B e)
    have r: "(?i - 1) + (?j - 1) * nI + (?k - 1) * nI * nJ = num - 1"
      using esmry_ijk_one_based(6) [OF h] by simp
    show "\<exists>i j k. esmry_ijk_from_global_index nI nJ num = Inr (i, j, k)
           \<and> makeKeyString m nI nJ kw wg num lgr
                = Inr (kw @ '':'' @ fmt_int i @ '','' @ fmt_int j @ '','' @ fmt_int k)
           \<and> 1 \<le> i \<and> i \<le> nI \<and> 1 \<le> j \<and> j \<le> nJ \<and> 1 \<le> k
           \<and> (i - 1) + (j - 1) * nI + (k - 1) * nI * nJ = num - 1"
      using e k r esmry_ijk_one_based(1-5) [OF h]
      by (intro exI [of _ ?i] exI [of _ ?j] exI [of _ ?k] conjI)
  qed
next
  show "makeKeyString m 20 10 ''BPR'' wg 12675 lgr = Inr ''BPR:15,4,64''"
    by (rule makeKeyString_BPR_example)
qed

theorem makeKeyString_block_witness:
  "str_at ''BPR'' 0 = CHR ''B'' \<and> (0::int) < 7 \<and> (0::int) < 3 \<and> (0::int) < 2
   \<and> makeKeyString (\<lambda>_. False) 3 2 ''BPR'' '':+:+:+:+'' 7 None = Inr ''BPR:1,1,2''
   \<and> (0::int) \<le> 0
   \<and> makeKeyString (\<lambda>_. False) 3 2 ''BPR'' '':+:+:+:+'' 0 None = Inr ''''"
proof -
  have h: "str_at ''BPR'' 0 = CHR ''B''" by (simp add: str_at_def)
  note t = makeKeyString_block [of "''BPR''" 7 "\<lambda>_. False" 3 2 "'':+:+:+:+''" None]
  from t h obtain i j k :: int where
    e: "makeKeyString (\<lambda>_. False) 3 2 ''BPR'' '':+:+:+:+'' 7 None
                = Inr (''BPR'' @ '':'' @ fmt_int i @ '','' @ fmt_int j @ '','' @ fmt_int k)"
    and b: "1 \<le> i" "i \<le> 3" "1 \<le> j" "j \<le> 2" "1 \<le> k"
    and r: "(i - 1) + (j - 1) * 3 + (k - 1) * 3 * 2 = 7 - 1"
    by auto
  from b r have "i = 1 \<and> j = 1 \<and> k = 2" by presburger
  with e have a: "makeKeyString (\<lambda>_. False) 3 2 ''BPR'' '':+:+:+:+'' 7 None = Inr ''BPR:1,1,2''"
    by (simp add: fmt_int_def fmt_nat.simps)
  note u = makeKeyString_block [of "''BPR''" 0 "\<lambda>_. False" 3 2 "'':+:+:+:+''" None]
  from u h have c: "makeKeyString (\<lambda>_. False) 3 2 ''BPR'' '':+:+:+:+'' 0 None = Inr ''''"
    by simp
  show ?thesis using h a c by simp
qed

theorem makeKeyString_BPR_counterexample:
  "makeKeyString (\<lambda>_. False) 20 10 ''BPR'' '':+:+:+:+'' 12675 None = Inr ''BPR:15,4,64''
   \<and> makeKeyString (\<lambda>_. False) 20 10 ''BPR'' '':+:+:+:+'' 12675 None \<noteq> Inr ''BPR:15,3,63''"
  by (simp add: makeKeyString_def str_at_def esmry_ijk_from_global_index_def Let_def
       signed_divide_int_def signed_modulo_int_def fmt_int_def fmt_nat.simps ebind_def)

section \<open>Properties of the constructor's check of the file name\<close>

lemma path_string_path_of: "path_string (path_of s) = s"
proof -
  let ?f = "rev (takeWhile (\<lambda>c. c \<noteq> CHR ''/'') (rev s))"
  have "rev s = takeWhile (\<lambda>c. c \<noteq> CHR ''/'') (rev s) @ dropWhile (\<lambda>c. c \<noteq> CHR ''/'') (rev s)"
    by simp
  then have "s = rev (dropWhile (\<lambda>c. c \<noteq> CHR ''/'') (rev s)) @ ?f"
    by (metis rev_append rev_rev_ident)
  moreover from this have "take (length s - length ?f) s = rev (dropWhile (\<lambda>c. c \<noteq> CHR ''/'') (rev s))"
    by (metis add_diff_cancel_right' append_eq_conv_conj length_append)
  ultimately show ?thesis
    by (simp add: path_string_def path_of_def Let_def)
qed

lemma path_file_append:
  assumes "CHR ''/'' \<notin> set t"
  shows "path_file (path_of (s @ t)) = path_file (path_of s) @ t"
proof -
  have "takeWhile (\<lambda>c. c \<noteq> CHR ''/'') (rev t @ rev s)
          = rev t @ takeWhile (\<lambda>c. c \<noteq> CHR ''/'') (rev s)"
    using assms by (intro takeWhile_append2) auto
  then show ?thesis by (simp add: path_of_def Let_def)
qed

lemma path_file_concat:
  "CHR ''/'' \<notin> set t \<Longrightarrow> path_file (path_concat p t) = path_file (path_of (path_string p)) @ t"
  by (simp add: path_concat_def path_file_append)

lemma file_extension_SMSPEC:
  assumes "f \<noteq> []"
  shows "file_extension (f @ ''.SMSPEC'') = ''.SMSPEC''"
proof -
  have t: "takeWhile (\<lambda>c. c \<noteq> CHR ''.'') (rev (f @ ''.SMSPEC'')) = ''CEPSMS''"
    by simp
  have l: "length (f @ ''.SMSPEC'') = length f + 7" by simp
  have n: "f @ ''.SMSPEC'' \<noteq> ''.''" "f @ ''.SMSPEC'' \<noteq> ''..''"
    by (auto dest: arg_cong [where f = length])
  show ?thesis
    unfolding file_extension_def Let_def t using n assms by simp
qed


lemma ESmry_head_no_extension:
  assumes "extension (path_of filename) = ''''" "path_file (path_of filename) \<noteq> ''''"
  shows "ESmry_head filename loadBaseRunData =
           Inr \<lparr>head_inputFileName = path_of (filename @ ''.SMSPEC''),
                head_fromSingleRun = (\<not> loadBaseRunData),
                head_formattedFiles = [False]\<rparr>"
proof -
  have c: "path_concat (path_of filename) ''.SMSPEC'' = path_of (filename @ ''.SMSPEC'')"
    by (simp add: path_concat_def path_string_path_of)
  have "path_file (path_of (filename @ ''.SMSPEC'')) = path_file (path_of filename) @ ''.SMSPEC''"
    by (rule path_file_append) simp
  then have e: "extension (path_of (filename @ ''.SMSPEC'')) = ''.SMSPEC''"
    using assms(2) by (simp add: extension_def file_extension_SMSPEC)
  show ?thesis
    using assms(1) by (simp add: ESmry_head_def Let_def c e)
qed

lemma ESmry_head_known_extension:
  assumes "extension (path_of filename) = ''.SMSPEC'' \<or> extension (path_of filename) = ''.FSMSPEC''"
  shows "ESmry_head filename loadBaseRunData =
           Inr \<lparr>head_inputFileName = path_of filename,
                head_fromSingleRun = (\<not> loadBaseRunData),
                head_formattedFiles = [extension (path_of filename) = ''.FSMSPEC'']\<rparr>"
  using assms by (auto simp: ESmry_head_def Let_def)

lemma ESmry_head_other_extension:
  assumes "extension (path_of filename) \<noteq> ''''" "extension (path_of filename) \<noteq> ''.SMSPEC''"
    "extension (path_of filename) \<noteq> ''.FSMSPEC''"
  shows "ESmry_head filename loadBaseRunData = Inl Invalid_argument"
  using assms by (simp add: ESmry_head_def Let_def)

lemma ESmry_head_empty_filename:
  assumes "path_file (path_of filename) = ''''"
  shows "ESmry_head filename loadBaseRunData = Inl Invalid_argument"
proof -
  have x: "extension (path_of filename) = ''''"
    using assms by (simp add: extension_def file_extension_def)
  have c: "path_concat (path_of filename) ''.SMSPEC'' = path_of (filename @ ''.SMSPEC'')"
    by (simp add: path_concat_def path_string_path_of)
  have "path_file (path_of (filename @ ''.SMSPEC'')) = path_file (path_of filename) @ ''.SMSPEC''"
    by (rule path_file_append) simp
  then have e: "extension (path_of (filename @ ''.SMSPEC'')) = ''''"
    using assms by (simp add: extension_def file_extension_def)
  show ?thesis
    using x by (simp add: ESmry_head_def Let_def c e)
qed

text \<open>
  \<^bold>\<open>C9\<close> (as amended). For an input path with a non-empty filename: without extension,
  \<open>.SMSPEC\<close> is appended and the input is unformatted; with extension \<open>.FSMSPEC\<close> it is
  formatted and with \<open>.SMSPEC\<close> unformatted; with any other extension the constructor
  fails with \<open>invalid_argument\<close> before the part that opens files is reached. With an empty
  filename the constructor fails in the same way.
\<close>

theorem ESmry_extension_check:
  "(extension (path_of filename) = '''' \<and> path_file (path_of filename) \<noteq> '''' \<longrightarrow>
      ESmry_head filename loadBaseRunData =
        Inr \<lparr>head_inputFileName = path_of (filename @ ''.SMSPEC''),
             head_fromSingleRun = (\<not> loadBaseRunData),
             head_formattedFiles = [False]\<rparr>
      \<and> extension (path_of (filename @ ''.SMSPEC'')) = ''.SMSPEC'')
   \<and> (extension (path_of filename) = ''.FSMSPEC'' \<longrightarrow>
      ESmry_head filename loadBaseRunData =
        Inr \<lparr>head_inputFileName = path_of filename,
             head_fromSingleRun = (\<not> loadBaseRunData),
             head_formattedFiles = [True]\<rparr>)
   \<and> (extension (path_of filename) = ''.SMSPEC'' \<longrightarrow>
      ESmry_head filename loadBaseRunData =
        Inr \<lparr>head_inputFileName = path_of filename,
             head_fromSingleRun = (\<not> loadBaseRunData),
             head_formattedFiles = [False]\<rparr>)
   \<and> (extension (path_of filename) \<noteq> '''' \<and> extension (path_of filename) \<noteq> ''.SMSPEC''
        \<and> extension (path_of filename) \<noteq> ''.FSMSPEC'' \<longrightarrow>
      ESmry_ctor rest filename loadBaseRunData = Inl Invalid_argument)
   \<and> (path_file (path_of filename) = '''' \<longrightarrow>
      ESmry_ctor rest filename loadBaseRunData = Inl Invalid_argument)"
proof (intro conjI)
  show "extension (path_of filename) = '''' \<and> path_file (path_of filename) \<noteq> '''' \<longrightarrow>
      ESmry_head filename loadBaseRunData =
        Inr \<lparr>head_inputFileName = path_of (filename @ ''.SMSPEC''),
             head_fromSingleRun = (\<not> loadBaseRunData),
             head_formattedFiles = [False]\<rparr>
      \<and> extension (path_of (filename @ ''.SMSPEC'')) = ''.SMSPEC''"
  proof (rule impI)
    assume a: "extension (path_of filename) = '''' \<and> path_file (path_of filename) \<noteq> ''''"
    have "path_file (path_of (filename @ ''.SMSPEC'')) = path_file (path_of filename) @ ''.SMSPEC''"
      by (rule path_file_append) simp
    then have "extension (path_of (filename @ ''.SMSPEC'')) = ''.SMSPEC''"
      using a by (simp add: extension_def file_extension_SMSPEC)
    with a show "ESmry_head filename loadBaseRunData =
        Inr \<lparr>head_inputFileName = path_of (filename @ ''.SMSPEC''),
             head_fromSingleRun = (\<not> loadBaseRunData),
             head_formattedFiles = [False]\<rparr>
      \<and> extension (path_of (filename @ ''.SMSPEC'')) = ''.SMSPEC''"
      by (simp add: ESmry_head_no_extension)
  qed
next
  show "extension (path_of filename) = ''.FSMSPEC'' \<longrightarrow>
      ESmry_head filename loadBaseRunData =
        Inr \<lparr>head_inputFileName = path_of filename,
             head_fromSingleRun = (\<not> loadBaseRunData),
             head_formattedFiles = [True]\<rparr>"
    by (simp add: ESmry_head_known_extension)
next
  show "extension (path_of filename) = ''.SMSPEC'' \<longrightarrow>
      ESmry_head filename loadBaseRunData =
        Inr \<lparr>head_inputFileName = path_of filename,
             head_fromSingleRun = (\<not> loadBaseRunData),
             head_formattedFiles = [False]\<rparr>"
    by (simp add: ESmry_head_known_extension)
next
  show "extension (path_of filename) \<noteq> '''' \<and> extension (path_of filename) \<noteq> ''.SMSPEC''
        \<and> extension (path_of filename) \<noteq> ''.FSMSPEC'' \<longrightarrow>
      ESmry_ctor rest filename loadBaseRunData = Inl Invalid_argument"
    by (simp add: ESmry_ctor_def ESmry_head_other_extension)
next
  show "path_file (path_of filename) = '''' \<longrightarrow>
      ESmry_ctor rest filename loadBaseRunData = Inl Invalid_argument"
    by (simp add: ESmry_ctor_def ESmry_head_empty_filename)
qed

lemma path_examples:
  "path_of ''run/CASE'' = \<lparr>path_dir = ''run/'', path_file = ''CASE''\<rparr>"
  "path_of ''run/CASE.SMSPEC'' = \<lparr>path_dir = ''run/'', path_file = ''CASE.SMSPEC''\<rparr>"
  "path_of ''CASE.FSMSPEC'' = \<lparr>path_dir = '''', path_file = ''CASE.FSMSPEC''\<rparr>"
  "path_of ''CASE.UNSMRY'' = \<lparr>path_dir = '''', path_file = ''CASE.UNSMRY''\<rparr>"
  "path_of ''run/'' = \<lparr>path_dir = ''run/'', path_file = ''''\<rparr>"
  by (simp_all add: path_of_def)

theorem ESmry_extension_check_witness:
  "extension (path_of ''run/CASE'') = '''' \<and> path_file (path_of ''run/CASE'') \<noteq> ''''
   \<and> ESmry_head ''run/CASE'' False =
        Inr \<lparr>head_inputFileName = \<lparr>path_dir = ''run/'', path_file = ''CASE.SMSPEC''\<rparr>,
             head_fromSingleRun = True, head_formattedFiles = [False]\<rparr>
   \<and> extension (path_of ''CASE.FSMSPEC'') = ''.FSMSPEC''
   \<and> ESmry_head ''CASE.FSMSPEC'' True =
        Inr \<lparr>head_inputFileName = \<lparr>path_dir = '''', path_file = ''CASE.FSMSPEC''\<rparr>,
             head_fromSingleRun = False, head_formattedFiles = [True]\<rparr>
   \<and> extension (path_of ''run/CASE.SMSPEC'') = ''.SMSPEC''
   \<and> ESmry_head ''run/CASE.SMSPEC'' True =
        Inr \<lparr>head_inputFileName = \<lparr>path_dir = ''run/'', path_file = ''CASE.SMSPEC''\<rparr>,
             head_fromSingleRun = False, head_formattedFiles = [False]\<rparr>
   \<and> extension (path_of ''CASE.UNSMRY'') = ''.UNSMRY''
   \<and> ESmry_ctor (\<lambda>h. Inr h) ''CASE.UNSMRY'' False = Inl Invalid_argument
   \<and> path_file (path_of ''run/'') = ''''
   \<and> ESmry_ctor (\<lambda>h. Inr h) ''run/'' False = Inl Invalid_argument"
proof -
  have x: "extension (path_of ''run/CASE'') = ''''" "path_file (path_of ''run/CASE'') \<noteq> ''''"
    "extension (path_of ''CASE.FSMSPEC'') = ''.FSMSPEC''"
    "extension (path_of ''run/CASE.SMSPEC'') = ''.SMSPEC''"
    "extension (path_of ''CASE.UNSMRY'') = ''.UNSMRY''"
    "path_file (path_of ''run/'') = ''''"
    by (simp_all add: path_examples extension_def file_extension_def)
  have a: "ESmry_head ''run/CASE'' False =
        Inr \<lparr>head_inputFileName = \<lparr>path_dir = ''run/'', path_file = ''CASE.SMSPEC''\<rparr>,
             head_fromSingleRun = True, head_formattedFiles = [False]\<rparr>"
    using ESmry_extension_check [of "''run/CASE''" False "\<lambda>h. Inr h"] x(1,2)
    by (simp add: path_examples)
  have b: "ESmry_head ''CASE.FSMSPEC'' True =
        Inr \<lparr>head_inputFileName = \<lparr>path_dir = '''', path_file = ''CASE.FSMSPEC''\<rparr>,
             head_fromSingleRun = False, head_formattedFiles = [True]\<rparr>"
    using ESmry_extension_check [of "''CASE.FSMSPEC''" True "\<lambda>h. Inr h"] x(3)
    by (simp add: path_examples)
  have c: "ESmry_head ''run/CASE.SMSPEC'' True =
        Inr \<lparr>head_inputFileName = \<lparr>path_dir = ''run/'', path_file = ''CASE.SMSPEC''\<rparr>,
             head_fromSingleRun = False, head_formattedFiles = [False]\<rparr>"
    using ESmry_extension_check [of "''run/CASE.SMSPEC''" True "\<lambda>h. Inr h"] x(4)
    by (simp add: path_examples)
  have d: "ESmry_ctor (\<lambda>h. Inr h) ''CASE.UNSMRY'' False = Inl Invalid_argument"
    using ESmry_extension_check [of "''CASE.UNSMRY''" False "\<lambda>h. Inr h"] x(5)
    by simp
  have e: "ESmry_ctor (\<lambda>h. Inr h) ''run/'' False = Inl Invalid_argument"
    using ESmry_extension_check [of "''run/''" False "\<lambda>h. Inr h"] x(6)
    by simp
  show ?thesis using x a b c d e by simp
qed

theorem ESmry_empty_filename_counterexample:
  "extension (path_of ''run/'') = ''''
   \<and> ESmry_head ''run/'' False = Inl Invalid_argument
   \<and> extension (path_of '''') = ''''
   \<and> ESmry_head '''' False = Inl Invalid_argument"
  by (simp add: ESmry_head_def path_of_def path_concat_def path_string_def extension_def
        file_extension_def Let_def)

section \<open>Properties of the ministep check\<close>

lemma all_steps_loop_iff:
  "all_steps_loop ms n \<longleftrightarrow> (\<forall>k. n \<le> k \<and> k < length ms \<longrightarrow> int_sub (ms ! k) (ms ! (k - 1)) \<le> 1)"
proof (induction ms n rule: all_steps_loop.induct)
  case (1 ms n)
  show ?case
  proof (cases "n < length ms")
    case False
    then show ?thesis by (simp add: all_steps_loop.simps [of ms n])
  next
    case True
    show ?thesis
    proof (cases "int_sub (ms ! n) (ms ! (n - 1)) > 1")
      case gap: True
      have "all_steps_loop ms n = False"
        using True gap by (simp add: all_steps_loop.simps [of ms n])
      moreover have "\<not> (\<forall>k. n \<le> k \<and> k < length ms \<longrightarrow> int_sub (ms ! k) (ms ! (k - 1)) \<le> 1)"
        using True gap by (intro notI) (drule spec [of _ n], simp)
      ultimately show ?thesis by simp
    next
      case nogap: False
      have "all_steps_loop ms n = all_steps_loop ms (Suc n)"
        using True nogap by (simp add: all_steps_loop.simps [of ms n])
      also have "\<dots> \<longleftrightarrow> (\<forall>k. Suc n \<le> k \<and> k < length ms \<longrightarrow> int_sub (ms ! k) (ms ! (k - 1)) \<le> 1)"
        using "1.IH" True nogap by simp
      also have "\<dots> \<longleftrightarrow> (\<forall>k. n \<le> k \<and> k < length ms \<longrightarrow> int_sub (ms ! k) (ms ! (k - 1)) \<le> 1)"
        using nogap by (metis Suc_leI le_neq_implies_less not_less Suc_leD)
      finally show ?thesis .
    qed
  qed
qed

lemma all_steps_available_cached:
  "mini_steps s \<noteq> [] \<Longrightarrow>
     all_steps_available u fs s = Inr (all_steps_loop (mini_steps s) 1, s)"
  by (simp add: all_steps_available_def)

lemma all_steps_available_uncached:
  "mini_steps s = [] \<Longrightarrow>
     all_steps_available u fs s =
       ebind (read_ministeps_from_disk u fs s) (\<lambda>s'. Inr (all_steps_loop (mini_steps s') 1, s'))"
  by (simp add: all_steps_available_def)

lemma int_sub_exact:
  "- 2147483648 \<le> a - b \<Longrightarrow> a - b < 2147483648 \<Longrightarrow> int_sub a b = a - b"
  by (simp add: int_sub_def int32_def)

text \<open>
  \<^bold>\<open>C10\<close> (as amended). When \<open>all_steps_available\<close> returns, its result is true exactly if
  the \<open>int\<close> difference \<open>mini_steps[n] - mini_steps[n-1]\<close>, reduced to 32 bits, is at most 1
  for every \<open>n \<ge> 1\<close>, where \<open>mini_steps\<close> is the cached list, or the list read from disk
  when nothing was cached. When every such difference fits into an \<open>int\<close>, as it does when
  no ministep is negative, the result is true exactly if
  \<open>mini_steps[n] - mini_steps[n-1] \<le> 1\<close> for every \<open>n \<ge> 1\<close>. With fewer than two ministeps
  the result is true. The call returns whenever ministeps are cached, and otherwise whenever
  \<open>read_ministeps_from_disk\<close> does.
\<close>

theorem all_steps_available_gaps:
  "(all_steps_available u fs s = Inr (b, s') \<longrightarrow>
       (b \<longleftrightarrow> (\<forall>n. 1 \<le> n \<and> n < length (mini_steps s') \<longrightarrow>
                   int_sub (mini_steps s' ! n) (mini_steps s' ! (n - 1)) \<le> 1))
     \<and> ((\<forall>n. 1 \<le> n \<and> n < length (mini_steps s') \<longrightarrow>
             - (2 ^ 31) \<le> mini_steps s' ! n - mini_steps s' ! (n - 1)
           \<and> mini_steps s' ! n - mini_steps s' ! (n - 1) < 2 ^ 31) \<longrightarrow>
          (b \<longleftrightarrow> (\<forall>n. 1 \<le> n \<and> n < length (mini_steps s') \<longrightarrow>
                      mini_steps s' ! n - mini_steps s' ! (n - 1) \<le> 1)))
     \<and> ((\<forall>n. n < length (mini_steps s') \<longrightarrow>
             0 \<le> mini_steps s' ! n \<and> mini_steps s' ! n < 2 ^ 31) \<longrightarrow>
          (b \<longleftrightarrow> (\<forall>n. 1 \<le> n \<and> n < length (mini_steps s') \<longrightarrow>
                      mini_steps s' ! n - mini_steps s' ! (n - 1) \<le> 1)))
     \<and> (length (mini_steps s') < 2 \<longrightarrow> b)
     \<and> (if mini_steps s = [] then read_ministeps_from_disk u fs s = Inr s' else s' = s))
   \<and> (mini_steps s \<noteq> [] \<longrightarrow> (\<exists>b. all_steps_available u fs s = Inr (b, s)))
   \<and> (mini_steps s = [] \<and> read_ministeps_from_disk u fs s = Inr s1 \<longrightarrow>
        (\<exists>b. all_steps_available u fs s = Inr (b, s1)))
   \<and> (mini_steps s = [] \<and> miniStepList s = [] \<longrightarrow> all_steps_available u fs s = Inr (True, s))"
proof (intro conjI)
  let ?ms = "mini_steps s'"
  let ?wrapped = "\<forall>n. 1 \<le> n \<and> n < length ?ms \<longrightarrow> int_sub (?ms ! n) (?ms ! (n - 1)) \<le> 1"
  let ?exact = "\<forall>n. 1 \<le> n \<and> n < length ?ms \<longrightarrow> ?ms ! n - ?ms ! (n - 1) \<le> 1"
  let ?fit = "\<forall>n. 1 \<le> n \<and> n < length ?ms \<longrightarrow>
             - (2 ^ 31) \<le> ?ms ! n - ?ms ! (n - 1) \<and> ?ms ! n - ?ms ! (n - 1) < 2 ^ 31"
  let ?nonneg = "\<forall>n. n < length ?ms \<longrightarrow> 0 \<le> ?ms ! n \<and> ?ms ! n < 2 ^ 31"
  show "all_steps_available u fs s = Inr (b, s') \<longrightarrow>
       (b \<longleftrightarrow> ?wrapped)
     \<and> (?fit \<longrightarrow> (b \<longleftrightarrow> ?exact))
     \<and> (?nonneg \<longrightarrow> (b \<longleftrightarrow> ?exact))
     \<and> (length ?ms < 2 \<longrightarrow> b)
     \<and> (if mini_steps s = [] then read_ministeps_from_disk u fs s = Inr s' else s' = s)"
  proof (rule impI)
    assume a: "all_steps_available u fs s = Inr (b, s')"
    have r: "(if mini_steps s = [] then read_ministeps_from_disk u fs s = Inr s' else s' = s)
          \<and> b = all_steps_loop ?ms 1"
    proof (cases "mini_steps s = []")
      case True
      with a show ?thesis
        by (auto simp: all_steps_available_uncached ebind_Inr_iff)
    next
      case False
      with a show ?thesis
        by (auto simp: all_steps_available_cached)
    qed
    then have b: "b \<longleftrightarrow> ?wrapped"
      by (simp add: all_steps_loop_iff)
    have f: "?wrapped \<longleftrightarrow> ?exact" if fit: ?fit
    proof -
      have "int_sub (?ms ! n) (?ms ! (n - 1)) = ?ms ! n - ?ms ! (n - 1)"
        if "1 \<le> n \<and> n < length ?ms" for n
        using fit that by (intro int_sub_exact) auto
      then show ?thesis by auto
    qed
    have n: ?fit if nn: ?nonneg
    proof (intro allI impI)
      fix n assume h: "1 \<le> n \<and> n < length ?ms"
      then have p: "n - 1 < length ?ms" by linarith
      from nn h have "0 \<le> ?ms ! n \<and> ?ms ! n < 2 ^ 31" by blast
      moreover from nn p have "0 \<le> ?ms ! (n - 1) \<and> ?ms ! (n - 1) < 2 ^ 31" by blast
      ultimately show "- (2 ^ 31) \<le> ?ms ! n - ?ms ! (n - 1)
           \<and> ?ms ! n - ?ms ! (n - 1) < 2 ^ 31"
        by simp
    qed
    have l: "length ?ms < 2 \<longrightarrow> b" using b by auto
    from r have c: "if mini_steps s = [] then read_ministeps_from_disk u fs s = Inr s'
        else s' = s"
      by (rule conjunct1)
    have e1: "?fit \<longrightarrow> (b \<longleftrightarrow> ?exact)" using b f by blast
    have e2: "?nonneg \<longrightarrow> (b \<longleftrightarrow> ?exact)" using b f n by blast
    show "(b \<longleftrightarrow> ?wrapped)
     \<and> (?fit \<longrightarrow> (b \<longleftrightarrow> ?exact))
     \<and> (?nonneg \<longrightarrow> (b \<longleftrightarrow> ?exact))
     \<and> (length ?ms < 2 \<longrightarrow> b)
     \<and> (if mini_steps s = [] then read_ministeps_from_disk u fs s = Inr s' else s' = s)"
      by (intro conjI b e1 e2 l c)
  qed
next
  show "mini_steps s \<noteq> [] \<longrightarrow> (\<exists>b. all_steps_available u fs s = Inr (b, s))"
    by (simp add: all_steps_available_cached)
next
  show "mini_steps s = [] \<and> read_ministeps_from_disk u fs s = Inr s1 \<longrightarrow>
        (\<exists>b. all_steps_available u fs s = Inr (b, s1))"
    by (simp add: all_steps_available_uncached)
next
  show "mini_steps s = [] \<and> miniStepList s = [] \<longrightarrow> all_steps_available u fs s = Inr (True, s)"
    by (simp add: all_steps_available_uncached read_ministeps_from_disk_def all_steps_loop_iff)
qed

theorem all_steps_available_gaps_witness:
  "all_steps_available example_util Map.empty (example_esmry\<lparr>mini_steps := [0, 1, 2, 4]\<rparr>)
      = Inr (False, example_esmry\<lparr>mini_steps := [0, 1, 2, 4]\<rparr>)
   \<and> (1::nat) \<le> 3 \<and> (3::nat) < length [0, 1, 2, 4 :: int]
   \<and> \<not> ([0, 1, 2, 4] ! 3 - [0, 1, 2, 4] ! (3 - 1) \<le> (1::int))
   \<and> all_steps_available example_util Map.empty (example_esmry\<lparr>mini_steps := [5]\<rparr>)
      = Inr (True, example_esmry\<lparr>mini_steps := [5]\<rparr>)
   \<and> length [5 :: int] < 2
   \<and> mini_steps example_esmry = [] \<and> miniStepList example_esmry = []
   \<and> all_steps_available example_util Map.empty example_esmry = Inr (True, example_esmry)
   \<and> read_ministeps_from_disk example_util [''run/CASE.UNSMRY'' \<mapsto> []]
        (example_esmry\<lparr>miniStepList := [(0, 0, 24), (0, 0, 25), (0, 0, 27)]\<rparr>)
      = Inr (example_esmry\<lparr>miniStepList := [(0, 0, 24), (0, 0, 25), (0, 0, 27)],
                            mini_steps := [24, 25, 27]\<rparr>)
   \<and> all_steps_available example_util [''run/CASE.UNSMRY'' \<mapsto> []]
        (example_esmry\<lparr>miniStepList := [(0, 0, 24), (0, 0, 25), (0, 0, 27)]\<rparr>)
      = Inr (False, example_esmry\<lparr>miniStepList := [(0, 0, 24), (0, 0, 25), (0, 0, 27)],
                            mini_steps := [24, 25, 27]\<rparr>)"
proof -
  let ?s1 = "example_esmry\<lparr>mini_steps := [0, 1, 2, 4]\<rparr>"
  let ?s2 = "example_esmry\<lparr>mini_steps := [5]\<rparr>"
  let ?s3 = "example_esmry\<lparr>miniStepList := [(0, 0, 24), (0, 0, 25), (0, 0, 27)]\<rparr>"
  let ?s4 = "example_esmry\<lparr>miniStepList := [(0, 0, 24), (0, 0, 25), (0, 0, 27)],
                            mini_steps := [24, 25, 27]\<rparr>"
  let ?fs = "[''run/CASE.UNSMRY'' \<mapsto> ([] :: byte list)]"
  have g: "\<not> ([0, 1, 2, 4] ! 3 - [0, 1, 2, 4] ! (3 - 1) \<le> (1::int))" by simp
  have nn1: "\<forall>n. n < length (mini_steps ?s1) \<longrightarrow>
             0 \<le> mini_steps ?s1 ! n \<and> mini_steps ?s1 ! n < 2 ^ 31"
    by (auto simp: less_Suc_eq numeral_eq_Suc)
  have nn4: "\<forall>n. n < length (mini_steps ?s4) \<longrightarrow>
             0 \<le> mini_steps ?s4 ! n \<and> mini_steps ?s4 ! n < 2 ^ 31"
    by (auto simp: less_Suc_eq numeral_eq_Suc)
  note t1 = all_steps_available_gaps [of example_util Map.empty ?s1 _ _ ?s1]
  from t1 obtain b1 where b1: "all_steps_available example_util Map.empty ?s1 = Inr (b1, ?s1)"
    by auto
  from all_steps_available_gaps [of example_util Map.empty ?s1 b1 ?s1 ?s1] b1 nn1
  have "b1 \<longleftrightarrow> (\<forall>n. 1 \<le> n \<and> n < length (mini_steps ?s1) \<longrightarrow>
                   mini_steps ?s1 ! n - mini_steps ?s1 ! (n - 1) \<le> 1)"
    by blast
  then have "\<not> b1" using g by (auto dest: spec [of _ 3])
  with b1 have a1: "all_steps_available example_util Map.empty ?s1 = Inr (False, ?s1)" by simp
  from all_steps_available_gaps [of example_util Map.empty ?s2 _ _ ?s2]
  obtain b2 where b2: "all_steps_available example_util Map.empty ?s2 = Inr (b2, ?s2)"
    by auto
  from all_steps_available_gaps [of example_util Map.empty ?s2 b2 ?s2 ?s2] b2
  have "length (mini_steps ?s2) < 2 \<longrightarrow> b2" by blast
  then have "b2" by simp
  with b2 have a2: "all_steps_available example_util Map.empty ?s2 = Inr (True, ?s2)" by simp
  have e: "mini_steps example_esmry = []" "miniStepList example_esmry = []"
    by (simp_all add: example_esmry_def)
  from all_steps_available_gaps [of example_util Map.empty example_esmry _ _ example_esmry] e
  have a3: "all_steps_available example_util Map.empty example_esmry = Inr (True, example_esmry)"
    by simp
  have r: "read_ministeps_from_disk example_util ?fs ?s3 = Inr ?s4"
    by (simp add: read_ministeps_from_disk_def open_data_file_def vec_nth_def example_esmry_def
          example_util_def)
  have m3: "mini_steps ?s3 = []" by (simp add: example_esmry_def)
  from all_steps_available_gaps [of example_util ?fs ?s3 _ _ ?s4] m3 r
  obtain b4 where b4: "all_steps_available example_util ?fs ?s3 = Inr (b4, ?s4)"
    by auto
  from all_steps_available_gaps [of example_util ?fs ?s3 b4 ?s4 ?s4] b4 nn4
  have "b4 \<longleftrightarrow> (\<forall>n. 1 \<le> n \<and> n < length (mini_steps ?s4) \<longrightarrow>
                   mini_steps ?s4 ! n - mini_steps ?s4 ! (n - 1) \<le> 1)"
    by blast
  then have "\<not> b4" by (auto dest: spec [of _ 2])
  with b4 have a4: "all_steps_available example_util ?fs ?s3 = Inr (False, ?s4)" by simp
  show ?thesis using a1 a2 a3 a4 r e g by simp
qed

theorem all_steps_available_wrap_counterexample:
  "all_steps_available example_util Map.empty
      (example_esmry\<lparr>mini_steps := [- 2, 2147483647]\<rparr>)
      = Inr (True, example_esmry\<lparr>mini_steps := [- 2, 2147483647]\<rparr>)
   \<and> \<not> ([- 2, 2147483647] ! 1 - [- 2, 2147483647] ! (1 - 1) \<le> (1::int))
   \<and> int_sub 2147483647 (- 2) = - 2147483647"
  by (simp add: all_steps_available_def all_steps_loop.simps int_sub_def int32_def)
section \<open>Properties of the unformatted PARAMS record\<close>

lemma block_constants:
  "MaxBlockSizeReal = 4000" "sizeOfReal = 4" "sizeOfInte = 4" "MaxNumBlockReal = 1000"
  by (simp_all add: MaxBlockSizeReal_def sizeOfReal_def MaxNumBlockReal_def sizeOfInte_def)

lemma elementPos_binary_eq:
  "elementPos_binary stepFilePos p = stepFilePos + (2 * (p div 1000) + 1) * 4 + p * 4"
  by (simp add: elementPos_binary_def Let_def block_constants)

lemma elementPos_binary_in_block:
  assumes "p0 mod 1000 = 0" "i < 1000"
  shows "elementPos_binary off (p0 + i) = off + 8 * (p0 div 1000) + 4 * p0 + 4 + 4 * i"
proof -
  from assms(1) obtain q where q: "p0 = 1000 * q" by (auto simp: mod_eq_0_iff_dvd)
  have "(p0 + i) div 1000 = q" using assms(2) q by simp
  moreover have "p0 div 1000 = q" using q by simp
  ultimately show ?thesis by (simp add: elementPos_binary_eq)
qed

lemma read_block_elems_by_seek:
  assumes "p0 mod 1000 = 0" "i + k \<le> 1000"
  shows "read_block_elems s fileH keywpos (off + 8 * (p0 div 1000) + 4 * p0 + 4 + 4 * i) k (p0 + i) vd
           = params_by_seek s fileH keywpos off (p0 + i) k vd"
  using assms(2)
proof (induction k arbitrary: i vd)
  case 0
  then show ?case by simp
next
  case (Suc k)
  then have i: "i < 1000" and k: "Suc i + k \<le> 1000" by simp_all
  have e: "elementPos_binary off (p0 + i) = off + 8 * (p0 div 1000) + 4 * p0 + 4 + 4 * i"
    by (rule elementPos_binary_in_block [OF assms(1) i])
  have n: "off + 8 * (p0 div 1000) + 4 * p0 + 4 + 4 * i + sizeOfReal
             = off + 8 * (p0 div 1000) + 4 * p0 + 4 + 4 * Suc i"
    by (simp add: block_constants)
  have step: "read_block_elems s fileH keywpos
                 (off + 8 * (p0 div 1000) + 4 * p0 + 4 + 4 * i + sizeOfReal) k (Suc (p0 + i))
               = params_by_seek s fileH keywpos off (Suc (p0 + i)) k"
    using Suc.IH [OF k] unfolding n by (intro ext) simp
  show ?case
    by (simp only: read_block_elems.simps params_by_seek.simps e step)
qed

lemma params_by_seek_append:
  "params_by_seek s fileH keywpos off p (a + b) vd
     = ebind (params_by_seek s fileH keywpos off p a vd)
         (\<lambda>vd'. params_by_seek s fileH keywpos off (p + a) b vd')"
proof (induction a arbitrary: p vd)
  case 0
  then show ?case by simp
next
  case (Suc a)
  show ?case
    by (simp add: Suc.IH ebind_def split: sum.splits)
qed

lemma read_blocks_by_seek:
  assumes "read_blocks s fileH keywpos pos rest p vd = Inr vd'"
    "p mod 1000 = 0" "pos = off + 8 * (p div 1000) + 4 * p"
  shows "params_by_seek s fileH keywpos off p (nat rest) vd = Inr vd'"
  using assms
proof (induction "nat rest" arbitrary: pos rest p vd rule: less_induct)
  case less
  show ?case
  proof (cases "rest > 0")
    case False
    then show ?thesis
      using less.prems(1) by (simp add: read_blocks.simps [of s fileH keywpos pos rest p vd])
  next
    case True
    from less.prems(1) True obtain dhead_raw where
        h: "read_scalar fileH pos 4 = Inr dhead_raw"
      by (auto simp: read_blocks.simps [of s fileH keywpos pos rest p vd] ebind_Inr_iff)
    define num where "num = sint (flipEndianInt (host_word32 dhead_raw)) sdiv int sizeOfInte"
    from less.prems(1) True h have
        r: "\<not> (num > 1000 \<or> num < 0)"
      by (auto simp: read_blocks.simps [of s fileH keywpos pos rest p vd] ebind_Inr_iff
            block_constants num_def split: if_splits)
    from less.prems(1) True h r obtain vd1 where
        b: "read_block_elems s fileH keywpos (pos + 4) (nat num) p vd = Inr vd1"
      and c: "\<not> ((num < 1000 \<and> rest - num \<noteq> 0) \<or> (num = 1000 \<and> rest - num < 0))"
      and rec: "read_blocks s fileH keywpos (pos + 4 + 4 * nat num + 4) (rest - num) (p + nat num) vd1
                  = Inr vd'"
      unfolding block_constants num_def
      by (subst (asm) read_blocks.simps)
         (auto simp: ebind_Inr_iff block_constants split: if_splits)
    have le: "0 + nat num \<le> 1000" using r by linarith
    have bs: "params_by_seek s fileH keywpos off p (nat num) vd = Inr vd1"
      using read_block_elems_by_seek [OF less.prems(2) le, of s fileH keywpos off vd]
        b less.prems(3) by simp
    show ?thesis
    proof (cases "num < 1000")
      case small: True
      with c have z: "rest - num = 0" by simp
      then have "vd' = vd1"
        using rec by (simp add: read_blocks.simps [of _ _ _ _ 0])
      with bs z show ?thesis by simp
    next
      case False
      with r c have n: "num = 1000" and rp: "0 \<le> rest - num" by simp_all
      have lt: "nat (rest - num) < nat rest" using n True by simp
      have al: "(p + nat num) mod 1000 = 0" using less.prems(2) n by simp
      have ps: "pos + 4 + 4 * nat num + 4 = off + 8 * ((p + nat num) div 1000) + 4 * (p + nat num)"
        using less.prems(2,3) n by (simp add: div_add1_eq)
      have "params_by_seek s fileH keywpos off (p + nat num) (nat (rest - num)) vd1 = Inr vd'"
        by (rule less.hyps [OF lt rec al ps])
      moreover have "nat rest = nat num + nat (rest - num)" using n rp by simp
      ultimately show ?thesis
        using bs by (simp add: params_by_seek_append)
    qed
  qed
qed

lemma vec_nth_Inr_iff: "vec_nth xs i = Inr x \<longleftrightarrow> i < length xs \<and> x = xs ! i"
  by (auto simp: vec_nth_def)

lemma push_value_Inr_iff:
  "push_value vd ind v = Inr vd' \<longleftrightarrow> ind < length vd \<and> vd' = vd[ind := vd ! ind @ [v]]"
  by (auto simp: push_value_def)

lemma distribute_value_length:
  "distribute_value s keywpos p v vd = Inr vd' \<Longrightarrow> length vd' = length vd \<and> p < length keywpos"
  by (auto simp: distribute_value_def ebind_Inr_iff vec_nth_Inr_iff push_value_Inr_iff
        split: if_splits)

lemma distribute_value_other:
  "distribute_value s keywpos p v vd = Inr vd' \<Longrightarrow> keywpos ! p \<noteq> int ind \<Longrightarrow> vd' ! ind = vd ! ind"
  by (auto simp: distribute_value_def ebind_Inr_iff vec_nth_Inr_iff push_value_Inr_iff
        split: if_splits)

lemma distribute_value_own:
  assumes "distribute_value s keywpos p v vd = Inr vd'" "keywpos ! p = int ind"
    "\<not> vectorLoaded s ! ind"
  shows "vd' ! ind = vd ! ind @ [v] \<and> ind < length vd"
  using assms
  by (auto simp: distribute_value_def ebind_Inr_iff vec_nth_Inr_iff push_value_Inr_iff
        split: if_splits)


lemma params_by_seek_other:
  assumes "params_by_seek s fileH keywpos off p k vd = Inr vd'"
    "\<forall>q. p \<le> q \<and> q < p + k \<longrightarrow> keywpos ! q \<noteq> int ind"
  shows "vd' ! ind = vd ! ind"
  using assms
proof (induction k arbitrary: p vd)
  case 0
  then show ?case by simp
next
  case (Suc k)
  from Suc.prems(1) obtain val vd1 where
      d: "distribute_value s keywpos p (flipEndianFloat (host_word32 val)) vd = Inr vd1"
    and r: "params_by_seek s fileH keywpos off (Suc p) k vd1 = Inr vd'"
    by (auto simp: ebind_Inr_iff)
  have kp: "keywpos ! p \<noteq> int ind" using Suc.prems(2) by simp
  have 1: "vd1 ! ind = vd ! ind" by (rule distribute_value_other [OF d kp])
  have "\<forall>q. Suc p \<le> q \<and> q < Suc p + k \<longrightarrow> keywpos ! q \<noteq> int ind"
    using Suc.prems(2) by simp
  then have "vd' ! ind = vd1 ! ind" using Suc.IH [OF r] by simp
  with 1 show ?case by simp
qed

lemma params_by_seek_readable:
  assumes "params_by_seek s fileH keywpos off p0 k vd = Inr vd'" "p0 \<le> p" "p < p0 + k"
  shows "\<exists>value. read_scalar fileH (elementPos_binary off p) sizeOfReal = Inr value"
  using assms
proof (induction k arbitrary: p0 vd)
  case 0
  then show ?case by simp
next
  case (Suc k)
  from Suc.prems(1) obtain val vd1 where
      v: "read_scalar fileH (elementPos_binary off p0) sizeOfReal = Inr val"
    and r: "params_by_seek s fileH keywpos off (Suc p0) k vd1 = Inr vd'"
    by (auto simp: ebind_Inr_iff)
  show ?case
  proof (cases "p = p0")
    case True
    with v show ?thesis by blast
  next
    case False
    with Suc.prems have "Suc p0 \<le> p" "p < Suc p0 + k" by simp_all
    with Suc.IH [OF r] show ?thesis by blast
  qed
qed

lemma params_by_seek_own:
  assumes "params_by_seek s fileH keywpos off p0 k vd = Inr vd'" "p0 \<le> p" "p < p0 + k"
    "keywpos ! p = int ind" "\<not> vectorLoaded s ! ind"
    "\<forall>q. p0 \<le> q \<and> q < p0 + k \<and> q \<noteq> p \<longrightarrow> keywpos ! q \<noteq> int ind"
  shows "\<exists>value. read_scalar fileH (elementPos_binary off p) sizeOfReal = Inr value
            \<and> vd' ! ind = vd ! ind @ [flipEndianFloat (host_word32 value)]
            \<and> ind < length vd"
  using assms(1,2,3,6)
proof (induction k arbitrary: p0 vd)
  case 0
  then show ?case by simp
next
  case (Suc k)
  from Suc.prems(1) obtain val vd1 where
      v: "read_scalar fileH (elementPos_binary off p0) sizeOfReal = Inr val"
    and d: "distribute_value s keywpos p0 (flipEndianFloat (host_word32 val)) vd = Inr vd1"
    and r: "params_by_seek s fileH keywpos off (Suc p0) k vd1 = Inr vd'"
    by (auto simp: ebind_Inr_iff)
  show ?case
  proof (cases "p = p0")
    case True
    have 1: "vd1 ! ind = vd ! ind @ [flipEndianFloat (host_word32 val)] \<and> ind < length vd"
      using distribute_value_own [OF d _ assms(5)] assms(4) True by simp
    have "\<forall>q. Suc p0 \<le> q \<and> q < Suc p0 + k \<longrightarrow> keywpos ! q \<noteq> int ind"
      using Suc.prems(4) True by simp
    then have "vd' ! ind = vd1 ! ind" by (rule params_by_seek_other [OF r])
    with 1 v True show ?thesis by simp
  next
    case False
    then have b: "Suc p0 \<le> p" "p < Suc p0 + k" using Suc.prems(2,3) by simp_all
    have o: "\<forall>q. Suc p0 \<le> q \<and> q < Suc p0 + k \<and> q \<noteq> p \<longrightarrow> keywpos ! q \<noteq> int ind"
      using Suc.prems(4) by simp
    have "keywpos ! p0 \<noteq> int ind" using Suc.prems(2,3,4) False by simp
    then have 1: "vd1 ! ind = vd ! ind" by (rule distribute_value_other [OF d])
    have l: "length vd1 = length vd" using distribute_value_length [OF d] by simp
    from Suc.IH [OF r b o] 1 l show ?thesis by simp
  qed
qed

lemma byte_split:
  fixes x m :: nat
  assumes "x < 256"
  shows "(x + 256 * m) mod 256 = x" "(x + 256 * m) div 256 = m"
  using assms by simp_all

lemma bytes_div_mod:
  fixes x0 x1 x2 x3 :: nat
  assumes "x0 < 256" "x1 < 256" "x2 < 256" "x3 < 256"
  shows "(x0 + 256 * x1 + 65536 * x2 + 16777216 * x3) mod 256 = x0"
    "(x0 + 256 * x1 + 65536 * x2 + 16777216 * x3) div 256 mod 256 = x1"
    "(x0 + 256 * x1 + 65536 * x2 + 16777216 * x3) div 65536 mod 256 = x2"
    "(x0 + 256 * x1 + 65536 * x2 + 16777216 * x3) div 16777216 = x3"
    "x0 + 256 * x1 + 65536 * x2 + 16777216 * x3 < 4294967296"
proof -
  define n where "n = x0 + 256 * x1 + 65536 * x2 + 16777216 * x3"
  define m2 where "m2 = x2 + 256 * x3"
  define m1 where "m1 = x1 + 256 * m2"
  have n: "n = x0 + 256 * m1" by (simp add: n_def m1_def m2_def)
  have d1: "n div 256 = m1" and r0: "n mod 256 = x0"
    unfolding n using byte_split [OF assms(1), of m1] by simp_all
  have d2: "m1 div 256 = m2" and r1: "m1 mod 256 = x1"
    unfolding m1_def using byte_split [OF assms(2), of m2] by simp_all
  have d3: "m2 div 256 = x3" and r2: "m2 mod 256 = x2"
    unfolding m2_def using byte_split [OF assms(3), of x3] by simp_all
  have e2: "n div 65536 = m2"
  proof -
    have "n div 65536 = n div (256 * 256)" by simp
    also have "\<dots> = n div 256 div 256" by (rule div_mult2_eq)
    finally show ?thesis by (simp add: d1 d2)
  qed
  have e3: "n div 16777216 = x3"
  proof -
    have "n div 16777216 = n div (65536 * 256)" by simp
    also have "\<dots> = n div 65536 div 256" by (rule div_mult2_eq)
    finally show ?thesis by (simp add: e2 d3)
  qed
  show "(x0 + 256 * x1 + 65536 * x2 + 16777216 * x3) mod 256 = x0"
    using r0 by (simp only: n_def)
  show "(x0 + 256 * x1 + 65536 * x2 + 16777216 * x3) div 256 mod 256 = x1"
    using d1 r1 by (simp only: n_def)
  show "(x0 + 256 * x1 + 65536 * x2 + 16777216 * x3) div 65536 mod 256 = x2"
    using e2 r2 by (simp only: n_def)
  show "(x0 + 256 * x1 + 65536 * x2 + 16777216 * x3) div 16777216 = x3"
    using e3 by (simp only: n_def)
  show "x0 + 256 * x1 + 65536 * x2 + 16777216 * x3 < 4294967296"
    using assms by linarith
qed

text \<open>Byte-swapping what a little-endian host read gives the big-endian value of the bytes.\<close>

lemma flip_host_big_endian:
  "flipEndianInt (host_word32 [a, b, c, d])
     = of_nat (16777216 * unat a + 65536 * unat b + 256 * unat c + unat d)"
proof -
  have a: "unat a < 256" "unat b < 256" "unat c < 256" "unat d < 256"
    using unsigned_less [of a, where 'a = nat] unsigned_less [of b, where 'a = nat]
      unsigned_less [of c, where 'a = nat] unsigned_less [of d, where 'a = nat] by simp_all
  let ?n = "unat a + 256 * unat b + 65536 * unat c + 16777216 * unat d"
  note bm = bytes_div_mod [OF a]
  have lt: "?n < 2 ^ 32" using bm(5) by simp
  have "unat (of_nat ?n :: 32 word) = ?n mod 2 ^ LENGTH(32)" by (rule unat_of_nat)
  also have "\<dots> = ?n" using lt by simp
  finally have u: "unat (of_nat ?n :: 32 word) = ?n" .
  have h: "host_word32 [a, b, c, d] = of_nat ?n" by (simp add: host_word32_def)
  have un: "unat (host_word32 [a, b, c, d]) = ?n" by (simp only: h u)
  note m0 = bm(1) and m1 = bm(2) and m2 = bm(3) and m3 = bm(4)
  have "flipEndianInt (host_word32 [a, b, c, d])
          = of_nat (unat a * 16777216 + unat b * 65536 + unat c * 256 + unat d)"
    by (simp only: flipEndianInt_def Let_def un m0 m1 m2 m3)
  then show ?thesis by (simp add: mult.commute)
qed

section \<open>The seek offset in unformatted files\<close>

lemma read_scalar_4:
  assumes "read_scalar fileH pos 4 = Inr bs"
  obtains b0 b1 b2 b3 where "bs = [b0, b1, b2, b3]"
proof -
  from assms have "length bs = 4"
    by (auto simp: read_scalar_def split: option.splits if_splits)
  then obtain b0 b1 b2 b3 where "bs = [b0, b1, b2, b3]"
    by (auto simp: length_Suc_conv numeral_eq_Suc)
  then show ?thesis by (rule that)
qed

lemma example_read_head: "read_scalar (Some example_unsmry) 60 4 = Inr [0, 0, 0, 8]"
  by (simp add: read_scalar_def example_unsmry_def)

lemma example_head_value: "sint (flipEndianInt (host_word32 [0, 0, 0, 8])) = 8"
  by (simp add: host_word32_def flipEndianInt_def)

lemma example_read_values: "read_scalar (Some example_unsmry) 64 4 = Inr [0x3F, 0x80, 0, 0]"
  "read_scalar (Some example_unsmry) 68 4 = Inr [0x40, 0, 0, 0]"
  "read_scalar (Some example_unsmry) 72 4 = Inr [0, 0, 0, 8]"
  by (simp_all add: read_scalar_def example_unsmry_def)

lemma example_flip_values: "flipEndianFloat (host_word32 [0x3F, 0x80, 0, 0]) = 0x3F800000"
  "flipEndianFloat (host_word32 [0x40, 0, 0, 0]) = 0x40000000"
  by (simp_all add: host_word32_def flipEndianInt_def flipEndianFloat_def)


lemma example_block_elems: "read_block_elems example_run (Some example_unsmry) [1, 0] 64 (Suc (Suc 0)) 0 [[], []]
     = Inr [[0x40000000], [0x3F800000]]"
  by (simp add: example_read_values example_flip_values block_constants distribute_value_def vec_nth_def push_value_def
        example_run_def example_esmry_def)

lemma example_block_elems_2: "read_block_elems example_run (Some example_unsmry) [1, 0] 64 2 0 [[], []]
     = Inr [[0x40000000], [0x3F800000]]"
  using example_block_elems by (simp only: numeral_2_eq_2)

lemma example_num: "sint (flipEndianInt (host_word32 [0, 0, 0, 8])) sdiv 4 = 2"
  by (simp add: example_head_value signed_divide_int_def)

lemma example_read_blocks:
  "read_blocks example_run (Some example_unsmry) [1, 0] 60 2 0 [[], []]
     = Inr [[0x40000000], [0x3F800000]]"
  apply (subst read_blocks.simps)
  apply (simp add: example_read_head example_num example_read_values example_block_elems_2 block_constants)
  apply (subst read_blocks.simps)
  apply simp
  done


text \<open>
  \<^bold>\<open>C7\<close> (as amended). In an unformatted file, \<open>loadData(vectList)\<close> reads column \<open>p\<close> of the
  PARAMS record that begins at \<open>stepOffset\<close> at the byte offset
  \<open>stepOffset + (2*nFull + 1)*4 + p*4\<close> with \<open>nFull = p / 1000\<close>: a block holds
  \<open>MaxBlockSizeReal / sizeOfReal = 1000\<close> elements between its 4-byte header and trailer.
  Whenever \<open>loadData()\<close> reads the record block by block without error, the four bytes at
  that offset exist and, flipped (that is, taken as a big-endian word), are the value that
  \<open>loadData()\<close> appends to the vector of the key of column \<open>p\<close>.
\<close>

theorem binary_seek_offset:
  "elementPos_binary stepOffset p = stepOffset + (2 * (p div 1000) + 1) * 4 + p * 4
   \<and> MaxBlockSizeReal div sizeOfReal = 1000
   \<and> (read_blocks s fileH keywpos stepOffset nParams 0 vd = Inr vd' \<and> int p < nParams \<longrightarrow>
        (\<exists>b0 b1 b2 b3.
            read_scalar fileH (elementPos_binary stepOffset p) sizeOfReal = Inr [b0, b1, b2, b3]
          \<and> flipEndianFloat (host_word32 [b0, b1, b2, b3])
              = of_nat (16777216 * unat b0 + 65536 * unat b1 + 256 * unat b2 + unat b3)
          \<and> (\<forall>ind. keywpos ! p = int ind \<and> \<not> vectorLoaded s ! ind
                  \<and> (\<forall>q. int q < nParams \<and> q \<noteq> p \<longrightarrow> keywpos ! q \<noteq> int ind) \<longrightarrow>
                vd' ! ind = vd ! ind @ [flipEndianFloat (host_word32 [b0, b1, b2, b3])])))"
proof (intro conjI)
  show "elementPos_binary stepOffset p = stepOffset + (2 * (p div 1000) + 1) * 4 + p * 4"
    by (rule elementPos_binary_eq)
next
  show "MaxBlockSizeReal div sizeOfReal = 1000"
    by (simp add: block_constants)
next
  show "read_blocks s fileH keywpos stepOffset nParams 0 vd = Inr vd' \<and> int p < nParams \<longrightarrow>
        (\<exists>b0 b1 b2 b3.
            read_scalar fileH (elementPos_binary stepOffset p) sizeOfReal = Inr [b0, b1, b2, b3]
          \<and> flipEndianFloat (host_word32 [b0, b1, b2, b3])
              = of_nat (16777216 * unat b0 + 65536 * unat b1 + 256 * unat b2 + unat b3)
          \<and> (\<forall>ind. keywpos ! p = int ind \<and> \<not> vectorLoaded s ! ind
                  \<and> (\<forall>q. int q < nParams \<and> q \<noteq> p \<longrightarrow> keywpos ! q \<noteq> int ind) \<longrightarrow>
                vd' ! ind = vd ! ind @ [flipEndianFloat (host_word32 [b0, b1, b2, b3])]))"
  proof (rule impI)
    assume a: "read_blocks s fileH keywpos stepOffset nParams 0 vd = Inr vd' \<and> int p < nParams"
    then have pk: "0 \<le> p" "p < 0 + nat nParams" by linarith+
    have bs: "params_by_seek s fileH keywpos stepOffset 0 (nat nParams) vd = Inr vd'"
      using a by (intro read_blocks_by_seek [where pos = stepOffset]) simp_all
    from params_by_seek_readable [OF bs pk] obtain bs4 where
        r: "read_scalar fileH (elementPos_binary stepOffset p) sizeOfReal = Inr bs4"
      by blast
    then have "read_scalar fileH (elementPos_binary stepOffset p) 4 = Inr bs4"
      by (simp add: block_constants)
    then obtain b0 b1 b2 b3 where b: "bs4 = [b0, b1, b2, b3]"
      by (rule read_scalar_4)
    have f: "flipEndianFloat (host_word32 [b0, b1, b2, b3])
              = of_nat (16777216 * unat b0 + 65536 * unat b1 + 256 * unat b2 + unat b3)"
      by (simp add: flipEndianFloat_def flip_host_big_endian)
    have o: "vd' ! ind = vd ! ind @ [flipEndianFloat (host_word32 [b0, b1, b2, b3])]"
      if h: "keywpos ! p = int ind \<and> \<not> vectorLoaded s ! ind
                  \<and> (\<forall>q. int q < nParams \<and> q \<noteq> p \<longrightarrow> keywpos ! q \<noteq> int ind)" for ind
    proof -
      have u: "\<forall>q. 0 \<le> q \<and> q < 0 + nat nParams \<and> q \<noteq> p \<longrightarrow> keywpos ! q \<noteq> int ind"
        using h by auto
      from params_by_seek_own [OF bs pk _ _ u] h r b show ?thesis by auto
    qed
    show "\<exists>b0 b1 b2 b3.
            read_scalar fileH (elementPos_binary stepOffset p) sizeOfReal = Inr [b0, b1, b2, b3]
          \<and> flipEndianFloat (host_word32 [b0, b1, b2, b3])
              = of_nat (16777216 * unat b0 + 65536 * unat b1 + 256 * unat b2 + unat b3)
          \<and> (\<forall>ind. keywpos ! p = int ind \<and> \<not> vectorLoaded s ! ind
                  \<and> (\<forall>q. int q < nParams \<and> q \<noteq> p \<longrightarrow> keywpos ! q \<noteq> int ind) \<longrightarrow>
                vd' ! ind = vd ! ind @ [flipEndianFloat (host_word32 [b0, b1, b2, b3])])"
      using r b f o by (intro exI [of _ b0] exI [of _ b1] exI [of _ b2] exI [of _ b3]) simp
  qed
qed

theorem binary_seek_offset_witness:
  "read_blocks example_run (Some example_unsmry) [1, 0] 60 2 0 [[], []]
      = Inr [[0x40000000], [0x3F800000]]
   \<and> int 1 < 2
   \<and> elementPos_binary 60 1 = 68
   \<and> read_scalar (Some example_unsmry) 68 sizeOfReal = Inr [0x40, 0, 0, 0]
   \<and> [1, 0] ! 1 = int 0 \<and> \<not> vectorLoaded example_run ! 0
   \<and> [[0x40000000], [0x3F800000]] ! 0 = [[], []] ! 0 @ [flipEndianFloat (host_word32 [0x40, 0, 0, 0])]"
proof -
  note t = binary_seek_offset [of 60 1 example_run "Some example_unsmry" "[1, 0]" 2 "[[], []]"
      "[[0x40000000], [0x3F800000]]"]
  have e: "elementPos_binary 60 1 = 68" using t by simp
  have r: "read_scalar (Some example_unsmry) 68 sizeOfReal = Inr [0x40, 0, 0, 0]"
    by (simp add: block_constants example_read_values)
  have l: "\<not> vectorLoaded example_run ! 0"
    by (simp add: example_run_def example_esmry_def)
  have u: "\<forall>q. int q < 2 \<and> q \<noteq> 1 \<longrightarrow> [1, 0] ! q \<noteq> int 0"
    by (auto simp: less_Suc_eq numeral_2_eq_2)
  have "\<exists>b0 b1 b2 b3.
            read_scalar (Some example_unsmry) (elementPos_binary 60 1) sizeOfReal
              = Inr [b0, b1, b2, b3]
          \<and> flipEndianFloat (host_word32 [b0, b1, b2, b3])
              = of_nat (16777216 * unat b0 + 65536 * unat b1 + 256 * unat b2 + unat b3)
          \<and> (\<forall>ind. [1, 0] ! 1 = int ind \<and> \<not> vectorLoaded example_run ! ind
                  \<and> (\<forall>q. int q < 2 \<and> q \<noteq> 1 \<longrightarrow> [1, 0] ! q \<noteq> int ind) \<longrightarrow>
                [[0x40000000], [0x3F800000]] ! ind
                  = [[], []] ! ind @ [flipEndianFloat (host_word32 [b0, b1, b2, b3])])"
    by (rule mp [OF t [THEN conjunct2, THEN conjunct2]]) (simp add: example_read_blocks)
  then obtain b0 b1 b2 b3 where
      r': "read_scalar (Some example_unsmry) (elementPos_binary 60 1) sizeOfReal = Inr [b0, b1, b2, b3]"
    and o: "\<forall>ind. [1, 0] ! 1 = int ind \<and> \<not> vectorLoaded example_run ! ind
                  \<and> (\<forall>q. int q < 2 \<and> q \<noteq> 1 \<longrightarrow> [1, 0] ! q \<noteq> int ind) \<longrightarrow>
                [[0x40000000], [0x3F800000]] ! ind
                  = [[], []] ! ind @ [flipEndianFloat (host_word32 [b0, b1, b2, b3])]"
    by blast
  from r r' e have b: "[b0, b1, b2, b3] = [0x40, 0, 0, 0]" by simp
  have k: "[1, 0] ! 1 = int 0" by simp
  have "[[0x40000000], [0x3F800000]] ! 0
                  = [[], []] ! 0 @ [flipEndianFloat (host_word32 [b0, b1, b2, b3])]"
    by (rule mp [OF spec [OF o]]) (intro conjI k l u)
  with b have v: "[[0x40000000], [0x3F800000]] ! 0
      = [[], []] ! 0 @ [flipEndianFloat (host_word32 [0x40, 0, 0, 0])]"
    by simp
  show ?thesis
    using example_read_blocks e r l v by simp
qed

theorem binary_seek_offset_counterexample:
  "elementPos_binary 0 250 = 1004
   \<and> elementPos_binary 0 250 \<noteq> 0 + (2 * (250 div 250) + 1) * 4 + 250 * 4
   \<and> MaxBlockSizeReal div sizeOfReal \<noteq> 250"
  by (simp add: elementPos_binary_def block_constants)

section \<open>The two ways of loading\<close>

lemma keywpos_inv_update:
  assumes "keywpos_inv N kp" "int ix \<notin> set kp" "n < N"
  shows "keywpos_inv N (kp[n := int ix])"
  unfolding keywpos_inv_def
proof (intro conjI allI impI)
  show "length (kp[n := int ix]) = N" using assms(1) by (simp add: keywpos_inv_def)
next
  fix i j
  assume a: "i < N \<and> j < N \<and> kp[n := int ix] ! i = kp[n := int ix] ! j \<and> 0 \<le> kp[n := int ix] ! i"
  have l: "length kp = N" using assms(1) by (simp add: keywpos_inv_def)
  have ni: "kp ! k \<noteq> int ix" if "k < N" for k
    using assms(2) that l by (metis nth_mem)
  from a have iN: "i < N" and jN: "j < N"
    and eq: "kp[n := int ix] ! i = kp[n := int ix] ! j"
    and nn: "0 \<le> kp[n := int ix] ! i"
    by blast+
  show "i = j"
  proof (cases "i = n")
    case True
    have "kp[n := int ix] ! i = int ix" using True iN l by simp
    with eq have "kp[n := int ix] ! j = int ix" by simp
    then show ?thesis using ni [OF jN] True by (cases "j = n") simp_all
  next
    case False
    then have i: "kp[n := int ix] ! i = kp ! i" by simp
    show ?thesis
    proof (cases "j = n")
      case True
      have "kp[n := int ix] ! j = int ix" using True jN l by simp
      with eq i have "kp ! i = int ix" by simp
      then show ?thesis using ni [OF iN] by simp
    next
      case jn: False
      then have j: "kp[n := int ix] ! j = kp ! j" by simp
      have "i < N \<and> j < N \<and> kp ! i = kp ! j \<and> 0 \<le> kp ! i" using iN jN eq nn i j by simp
      then show ?thesis using assms(1) unfolding keywpos_inv_def by blast
    qed
  qed
qed

lemma keywpos_loop_inv:
  "keywpos_loop s kwList N n kp = Inr kp' \<Longrightarrow> keywpos_inv N kp \<Longrightarrow> keywpos_inv N kp'"
proof (induction s kwList N n kp rule: keywpos_loop.induct)
  case (1 s kwList nParams n keywpos)
  show ?case
  proof (cases "n < nParams")
    case False
    then show ?thesis
      using "1.prems" by (simp add: keywpos_loop.simps [of s kwList nParams n keywpos])
  next
    case True
    from "1.prems"(1) True obtain kw where kw: "vec_nth kwList n = Inr kw"
      by (auto simp: keywpos_loop.simps [of s kwList nParams n keywpos] split: sum.splits)
    show ?thesis
    proof (cases "keyword_index s kw")
      case None
      with "1.prems"(1) True kw
      have "keywpos_loop s kwList nParams (Suc n) keywpos = Inr kp'"
        by (simp add: keywpos_loop.simps [of s kwList nParams n keywpos])
      then show ?thesis using "1.IH"(1) [OF True kw None] "1.prems"(2) by simp
    next
      case (Some ix)
      show ?thesis
      proof (cases "int ix \<in> set keywpos")
        case mem: True
        with "1.prems"(1) True kw Some
        have "keywpos_loop s kwList nParams (Suc n) keywpos = Inr kp'"
          by (simp add: keywpos_loop.simps [of s kwList nParams n keywpos])
        then show ?thesis using "1.IH"(2) [OF True kw Some mem] "1.prems"(2) by simp
      next
        case nmem: False
        with "1.prems"(1) True kw Some
        have "keywpos_loop s kwList nParams (Suc n) (keywpos[n := int ix]) = Inr kp'"
          by (simp add: keywpos_loop.simps [of s kwList nParams n keywpos])
        moreover have "keywpos_inv nParams (keywpos[n := int ix])"
          by (rule keywpos_inv_update [OF "1.prems"(2) nmem True])
        ultimately show ?thesis using "1.IH"(3) [OF True kw Some nmem] by simp
      qed
    qed
  qed
qed

lemma makeKeywPosVector_inv:
  assumes "makeKeywPosVector s specInd = Inr kp"
  shows "\<exists>nParams. vec_nth (nParamsSpecFile s) specInd = Inr nParams \<and> 0 \<le> nParams
           \<and> keywpos_inv (nat nParams) kp"
proof -
  from assms obtain nParams kwList where
      n: "vec_nth (nParamsSpecFile s) specInd = Inr nParams" "\<not> nParams < 0"
    and l: "keywpos_loop s kwList (nat nParams) 0 (replicate (nat nParams) (- 1)) = Inr kp"
    by (auto simp: makeKeywPosVector_def ebind_Inr_iff split: if_splits)
  have "keywpos_inv (nat nParams) (replicate (nat nParams) (- 1))"
    by (auto simp: keywpos_inv_def)
  from keywpos_loop_inv [OF l this] n show ?thesis by auto
qed


lemma key_column_Some:
  assumes "key_column s ind specInd = Some p"
  obtains pos_of kp where "vec_nth (arrayPos s) specInd = Inr pos_of" "pos_of ind = Some p"
    "makeKeywPosVector s specInd = Inr kp" "p < length kp" "kp ! p = int ind"
  using assms
  by (auto simp: key_column_def split: sum.splits option.splits if_splits)

text \<open>One time step: what \<open>loadData()\<close> appends for the key is what \<open>loadData(vectList)\<close>
  reads for it.\<close>

lemma step_agrees:
  assumes bulk: "read_params u s fileH specInd stepFilePos kp vd1 = Inr vd1'"
    and kp: "makeKeywPosVector s specInd = Inr kp"
    and col: "key_column s ind specInd = Some p"
    and unf: "unformatted_spec s specInd"
    and nl: "\<not> vectorLoaded s ! ind"
    and same: "vd1 ! ind = vd2 ! ind"
    and len: "ind < length vd2"
  shows "\<exists>vd2'. load_elements u s fileH specInd stepFilePos [ind] vd2 = Inr vd2'
            \<and> vd2' ! ind = vd1' ! ind \<and> length vd2' = length vd2"
proof -
  from col kp obtain pos_of where
      ap: "vec_nth (arrayPos s) specInd = Inr pos_of" "pos_of ind = Some p"
    and pl: "p < length kp" and pk: "kp ! p = int ind"
    by (auto elim!: key_column_Some)
  from makeKeywPosVector_inv [OF kp] obtain nParams where
      np: "vec_nth (nParamsSpecFile s) specInd = Inr nParams" "0 \<le> nParams"
    and inv: "keywpos_inv (nat nParams) kp"
    by blast
  have lk: "length kp = nat nParams" using inv by (simp add: keywpos_inv_def)
  have ff: "vec_nth (formattedFiles s) specInd = Inr False"
    using unf by (simp add: unformatted_spec_def)
  have rb: "read_blocks s fileH kp stepFilePos nParams 0 vd1 = Inr vd1'"
    using bulk by (simp add: read_params_def ff np)
  have bs: "params_by_seek s fileH kp stepFilePos 0 (nat nParams) vd1 = Inr vd1'"
    using rb by (intro read_blocks_by_seek [where pos = stepFilePos]) simp_all
  have uq: "\<forall>q. 0 \<le> q \<and> q < 0 + nat nParams \<and> q \<noteq> p \<longrightarrow> kp ! q \<noteq> int ind"
  proof (intro allI impI notI)
    fix q
    assume q: "0 \<le> q \<and> q < 0 + nat nParams \<and> q \<noteq> p" and e: "kp ! q = int ind"
    have "q < nat nParams \<and> p < nat nParams \<and> kp ! q = kp ! p \<and> 0 \<le> kp ! q"
      using q e pk pl lk by simp
    then have "q = p" using inv unfolding keywpos_inv_def by blast
    with q show False by simp
  qed
  have pp: "0 \<le> p" "p < 0 + nat nParams" using pl lk by simp_all
  from params_by_seek_own [OF bs pp pk nl uq] obtain val where
      rd: "read_scalar fileH (elementPos_binary stepFilePos p) sizeOfReal = Inr val"
    and v1: "vd1' ! ind = vd1 ! ind @ [flipEndianFloat (host_word32 val)]"
    by blast
  have le: "load_element u s fileH specInd stepFilePos ind vd2
              = Inr (vd2[ind := vd2 ! ind @ [flipEndianFloat (host_word32 val)]])"
    using len by (simp add: load_element_def ap ff rd push_value_def Let_def)
  show ?thesis
    using le v1 same len by simp
qed

text \<open>All time steps, whatever the loop variables are when the loops are entered.\<close>

lemma steps_agree:
  assumes "loadData_all_steps u fs s steps specInd dataFileIndex kp fileH vd1 = Inr vd1'"
    and "makeKeywPosVector s specInd = Inr kp"
    and "\<forall>sp \<in> insert specInd (fst ` set steps).
           unformatted_spec s sp \<and> key_column s ind sp \<noteq> None"
    and "\<not> vectorLoaded s ! ind"
    and "vd1 ! ind = vd2 ! ind"
    and "ind < length vd2"
  shows "\<exists>vd2'. loadData_steps u fs s [ind] steps specInd dataFileIndex fileH vd2 = Inr vd2'
            \<and> vd2' ! ind = vd1' ! ind \<and> length vd2' = length vd2"
  using assms
proof (induction steps arbitrary: specInd dataFileIndex kp fileH vd1 vd2)
  case Nil
  then show ?case by simp
next
  case (Cons ministep steps)
  obtain stepSpec stepFile stepFilePos where m: "ministep = (stepSpec, stepFile, stepFilePos)"
    by (cases ministep) auto
  from Cons.prems(1) obtain specInd' dataFileIndex' kp' fileH' vdm where
      sw: "(if dataFileIndex \<noteq> stepFile then
              ebind (if specInd \<noteq> stepSpec
                     then ebind (makeKeywPosVector s stepSpec) (\<lambda>kp. Inr (stepSpec, kp))
                     else Inr (specInd, kp)) (\<lambda>(specInd', keywpos').
              ebind (open_data_file fs s specInd' stepFile) (\<lambda>h.
                Inr (specInd', stepFile, keywpos', h)))
            else Inr (specInd, dataFileIndex, kp, fileH))
           = Inr (specInd', dataFileIndex', kp', fileH')"
    and rp: "read_params u s fileH' specInd' stepFilePos kp' vd1 = Inr vdm"
    and rest: "loadData_all_steps u fs s steps specInd' dataFileIndex' kp' fileH' vdm = Inr vd1'"
    by (auto simp: m ebind_Inr_iff)
  have sw2: "(if dataFileIndex \<noteq> stepFile
              then ebind (open_data_file fs s stepSpec stepFile) (\<lambda>h. Inr (stepSpec, stepFile, h))
              else Inr (specInd, dataFileIndex, fileH))
             = Inr (specInd', dataFileIndex', fileH')"
    and kp': "makeKeywPosVector s specInd' = Inr kp'"
    and sp': "specInd' = specInd \<or> specInd' = stepSpec"
    using sw Cons.prems(2)
    by (auto simp: ebind_Inr_iff split: if_splits)
  have h: "unformatted_spec s specInd'" "key_column s ind specInd' \<noteq> None"
    using sp' Cons.prems(3) by (auto simp: m)
  then obtain p where col: "key_column s ind specInd' = Some p" by auto
  from step_agrees [OF rp kp' col h(1) Cons.prems(4) Cons.prems(5) Cons.prems(6)]
  obtain vdn where
      le: "load_elements u s fileH' specInd' stepFilePos [ind] vd2 = Inr vdn"
    and eq: "vdn ! ind = vdm ! ind" and ln: "length vdn = length vd2"
    by blast
  have hyp: "\<forall>sp \<in> insert specInd' (fst ` set steps).
           unformatted_spec s sp \<and> key_column s ind sp \<noteq> None"
    using Cons.prems(3) sp' by (auto simp: m)
  have il: "ind < length vdn" using ln Cons.prems(6) by simp
  from Cons.IH [OF rest kp' hyp Cons.prems(4) eq [symmetric] il]
  obtain vd2' where
      r2: "loadData_steps u fs s [ind] steps specInd' dataFileIndex' fileH' vdn = Inr vd2'"
    and e2: "vd2' ! ind = vd1' ! ind" and l2: "length vd2' = length vdn"
    by blast
  have "loadData_steps u fs s [ind] (ministep # steps) specInd dataFileIndex fileH vd2 = Inr vd2'"
    using sw2 le r2 by (simp add: m)
  with e2 l2 ln show ?case by simp
qed

lemma loadData_steps_count:
  assumes "loadData_steps u fs s [ind] steps specInd dataFileIndex fileH vd = Inr vd'"
    "ind < length vd"
  shows "length (vd' ! ind) = length (vd ! ind) + length steps \<and> length vd' = length vd"
  using assms
proof (induction steps arbitrary: specInd dataFileIndex fileH vd)
  case Nil
  then show ?case by simp
next
  case (Cons ministep steps)
  obtain stepSpec stepFile stepFilePos where m: "ministep = (stepSpec, stepFile, stepFilePos)"
    by (cases ministep) auto
  from Cons.prems(1) obtain specInd' dataFileIndex' fileH' vdm where
      le: "load_element u s fileH' specInd' stepFilePos ind vd = Inr vdm"
    and rest: "loadData_steps u fs s [ind] steps specInd' dataFileIndex' fileH' vdm = Inr vd'"
    by (auto simp: m ebind_Inr_iff)
  from le obtain v where v: "vdm = vd[ind := vd ! ind @ [v]]"
    by (auto simp: load_element_def ebind_Inr_iff push_value_Inr_iff Let_def
          split: option.splits if_splits)
  then have l: "ind < length vdm" "length (vdm ! ind) = length (vd ! ind) + 1"
      "length vdm = length vd"
    using Cons.prems(2) by simp_all
  from Cons.IH [OF rest l(1)] l show ?case by simp
qed

lemma keywIndVect_single:
  assumes "hasKey s key" "keyword_index s key = Some ind" "ind < length (vectorLoaded s)"
    "\<not> vectorLoaded s ! ind"
  shows "keywIndVect_loop s [key] [] = Inr [ind]"
  using assms by (simp add: vec_nth_def)

lemma read_params_absent:
  assumes "read_params u s fileH specInd stepFilePos kp vd = Inr vd'"
    "unformatted_spec s specInd" "int ind \<notin> set kp"
    "makeKeywPosVector s specInd = Inr kp"
  shows "vd' ! ind = vd ! ind"
proof -
  from assms(1,2) obtain nParams where
      n: "vec_nth (nParamsSpecFile s) specInd = Inr nParams"
    and rb: "read_blocks s fileH kp stepFilePos nParams 0 vd = Inr vd'"
    by (auto simp: read_params_def unformatted_spec_def ebind_Inr_iff)
  from makeKeywPosVector_inv [OF assms(4)] n have l: "length kp = nat nParams"
    by (auto simp: keywpos_inv_def)
  have bs: "params_by_seek s fileH kp stepFilePos 0 (nat nParams) vd = Inr vd'"
    using rb by (intro read_blocks_by_seek [where pos = stepFilePos]) simp_all
  have "\<forall>q. 0 \<le> q \<and> q < 0 + nat nParams \<longrightarrow> kp ! q \<noteq> int ind"
    using assms(3) l by (metis add_0 nth_mem)
  from params_by_seek_other [OF bs this] show ?thesis .
qed

lemma example_keywpos: "makeKeywPosVector example_run 0 = Inr [1, 0]"
  by (simp add: makeKeywPosVector_def vec_nth_def example_run_def example_esmry_def
        keywpos_loop.simps ebind_def numeral_2_eq_2)

lemma example_chain_keywpos: "makeKeywPosVector example_chain 0 = Inr [1, 0]"
  "makeKeywPosVector example_chain (Suc 0) = Inr [1]"
  by (simp_all add: makeKeywPosVector_def vec_nth_def example_chain_def example_esmry_def
        keywpos_loop.simps ebind_def numeral_2_eq_2)


lemma example_base_read: "read_scalar (Some example_base_unsmry) 60 4 = Inr [0, 0, 0, 4]"
  "read_scalar (Some example_base_unsmry) 64 4 = Inr [0x3F, 0x80, 0, 0]"
  "read_scalar (Some example_base_unsmry) 68 4 = Inr [0, 0, 0, 4]"
  by (simp_all add: read_scalar_def example_base_unsmry_def)

lemma example_base_num: "sint (flipEndianInt (host_word32 [0, 0, 0, 4])) sdiv 4 = 1"
  by (simp add: host_word32_def flipEndianInt_def signed_divide_int_def)

lemma example_blocks:
  assumes "vectorLoaded s = [False, False]"
  shows "read_blocks s (Some example_unsmry) [1, 0] 60 2 0 [a, b]
           = Inr [a @ [0x40000000], b @ [0x3F800000]]"
proof -
  have e: "read_block_elems s (Some example_unsmry) [1, 0] 64 (Suc (Suc 0)) 0 [a, b]
     = Inr [a @ [0x40000000], b @ [0x3F800000]]"
    by (simp add: example_read_values example_flip_values block_constants distribute_value_def
          vec_nth_def push_value_def assms)
  then have e2: "read_block_elems s (Some example_unsmry) [1, 0] 64 2 0 [a, b]
     = Inr [a @ [0x40000000], b @ [0x3F800000]]"
    by (simp only: numeral_2_eq_2)
  show ?thesis
    apply (subst read_blocks.simps)
    apply (simp add: example_read_head example_num example_read_values e2 block_constants)
    apply (subst read_blocks.simps)
    apply simp
    done
qed

lemma example_base_blocks:
  assumes "vectorLoaded s = [False, False]"
  shows "read_blocks s (Some example_base_unsmry) [1] 60 1 0 [a, b] = Inr [a, b @ [0x3F800000]]"
proof -
  have e: "read_block_elems s (Some example_base_unsmry) [1] 64 (Suc 0) 0 [a, b]
     = Inr [a, b @ [0x3F800000]]"
    by (simp add: example_base_read example_flip_values block_constants distribute_value_def
          vec_nth_def push_value_def assms)
  show ?thesis
    apply (subst read_blocks.simps)
    apply (simp add: example_base_read example_base_num e block_constants
             del: read_block_elems.simps)
    apply (subst read_blocks.simps)
    apply simp
    done
qed

lemma example_run_fields:
  "timeStepList example_run = [(0, 0, 60)]" "vectorData example_run = [[], []]"
  "vectorLoaded example_run = [False, False]" "nVect example_run = 2"
  "formattedFiles example_run = [False]" "nParamsSpecFile example_run = [2]"
  "dataFileList example_run = [''run/CASE.UNSMRY'']"
  "arrayPos example_run = [[0 \<mapsto> 1, 1 \<mapsto> 0]]"
  "keyword example_run = [''FOPT'', ''TIME'']"
  "keyword_index example_run = [''FOPT'' \<mapsto> 0, ''TIME'' \<mapsto> 1]"
  by (simp_all add: example_run_def example_esmry_def)

lemma example_chain_fields:
  "timeStepList example_chain = [(1, 0, 60), (0, 1, 60)]" "vectorData example_chain = [[], []]"
  "vectorLoaded example_chain = [False, False]" "nVect example_chain = 2"
  "formattedFiles example_chain = [False, False]" "nParamsSpecFile example_chain = [2, 1]"
  "dataFileList example_chain = [''run/BASE.UNSMRY'', ''run/CASE.UNSMRY'']"
  "arrayPos example_chain = [[0 \<mapsto> 1, 1 \<mapsto> 0], [1 \<mapsto> 0]]"
  "keyword example_chain = [''FOPT'', ''TIME'']"
  "keyword_index example_chain = [''FOPT'' \<mapsto> 0, ''TIME'' \<mapsto> 1]"
  by (simp_all add: example_chain_def example_esmry_def)

lemma example_open: "open_data_file example_fs example_run 0 0 = Inr (Some example_unsmry)"
  by (simp add: open_data_file_def example_run_fields vec_nth_def example_fs_def)

lemma example_chain_open:
  "open_data_file example_chain_fs example_chain (Suc 0) 0 = Inr (Some example_base_unsmry)"
  "open_data_file example_chain_fs example_chain 0 (Suc 0) = Inr (Some example_unsmry)"
  by (simp_all add: open_data_file_def example_chain_fields vec_nth_def example_chain_fs_def)

lemma example_loadData:
  "loadData example_util example_fs example_run
     = Inr (example_run\<lparr>vectorData := [[0x40000000], [0x3F800000]],
                        vectorLoaded := [True, True]\<rparr>)"
  by (simp add: loadData_def example_run_fields example_keywpos example_open read_params_def
        vec_nth_def example_blocks numeral_2_eq_2)

lemma example_chain_loadData:
  "map_sum id vectorData (loadData example_util example_chain_fs example_chain)
     = Inr [[0x40000000], [0x3F800000, 0x3F800000]]"
  by (simp add: loadData_def example_chain_fields example_chain_keywpos example_chain_open
        read_params_def vec_nth_def example_blocks example_base_blocks numeral_2_eq_2)

lemma example_chain_seek:
  "map_sum id vectorData
     (loadData_vectList example_util example_chain_fs [''FOPT''] example_chain)
     = Inr [[nanf, 0x40000000], []]"
  by (simp add: loadData_vectList_def example_chain_fields example_chain_open hasKey_def
        load_element_def push_value_def elementPos_binary_def block_constants
        example_read_values example_flip_values vec_nth_def)


text \<open>
  Where the two ways agree. Take a key that is not loaded yet and has its column in every
  spec file of the time steps, all of them read from unformatted result files. Whenever
  \<open>loadData()\<close> reads all PARAMS records without error, \<open>loadData(vectList)\<close> for this key
  succeeds as well, appends one value per time step, and produces the same vector for the
  key as \<open>loadData()\<close>. For a key without column in a spec file, \<open>loadData(vectList)\<close>
  appends NaN at every step of that spec file, whereas \<open>loadData()\<close> appends nothing to the
  vector of a key to which \<open>makeKeywPosVector\<close> gives no column.
\<close>

theorem load_paths_agree:
  "(loadData u fs s = Inr s1 \<and> timeStepList s \<noteq> []
      \<and> hasKey s key \<and> keyword_index s key = Some ind
      \<and> ind < length (vectorLoaded s) \<and> \<not> vectorLoaded s ! ind \<and> ind < length (vectorData s)
      \<and> (\<forall>sp \<in> fst ` set (timeStepList s).
            unformatted_spec s sp \<and> key_column s ind sp \<noteq> None) \<longrightarrow>
      (\<exists>s2. loadData_vectList u fs [key] s = Inr s2
          \<and> vectorData s2 ! ind = vectorData s1 ! ind
          \<and> length (vectorData s2 ! ind)
               = length (vectorData s ! ind) + length (timeStepList s)
          \<and> vectorLoaded s2 ! ind))
   \<and> (vec_nth (arrayPos s) specInd = Inr pos_of \<and> pos_of ind = None \<and> ind < length vd \<longrightarrow>
        load_element u s fileH specInd stepFilePos ind vd = Inr (vd[ind := vd ! ind @ [nanf]]))
   \<and> (read_params u s fileH specInd stepFilePos kp vd = Inr vd' \<and> unformatted_spec s specInd
        \<and> makeKeywPosVector s specInd = Inr kp \<and> int ind \<notin> set kp \<longrightarrow>
        vd' ! ind = vd ! ind)"
proof (intro conjI)
  show "loadData u fs s = Inr s1 \<and> timeStepList s \<noteq> []
      \<and> hasKey s key \<and> keyword_index s key = Some ind
      \<and> ind < length (vectorLoaded s) \<and> \<not> vectorLoaded s ! ind \<and> ind < length (vectorData s)
      \<and> (\<forall>sp \<in> fst ` set (timeStepList s).
            unformatted_spec s sp \<and> key_column s ind sp \<noteq> None) \<longrightarrow>
      (\<exists>s2. loadData_vectList u fs [key] s = Inr s2
          \<and> vectorData s2 ! ind = vectorData s1 ! ind
          \<and> length (vectorData s2 ! ind)
               = length (vectorData s ! ind) + length (timeStepList s)
          \<and> vectorLoaded s2 ! ind)"
  proof (rule impI)
    assume a: "loadData u fs s = Inr s1 \<and> timeStepList s \<noteq> []
      \<and> hasKey s key \<and> keyword_index s key = Some ind
      \<and> ind < length (vectorLoaded s) \<and> \<not> vectorLoaded s ! ind \<and> ind < length (vectorData s)
      \<and> (\<forall>sp \<in> fst ` set (timeStepList s).
            unformatted_spec s sp \<and> key_column s ind sp \<noteq> None)"
    then have bulk: "loadData u fs s = Inr s1" and ne: "timeStepList s \<noteq> []"
      and k: "hasKey s key" "keyword_index s key = Some ind" "ind < length (vectorLoaded s)"
      and nl: "\<not> vectorLoaded s ! ind" and il: "ind < length (vectorData s)"
      and hyp: "\<forall>sp \<in> fst ` set (timeStepList s).
            unformatted_spec s sp \<and> key_column s ind sp \<noteq> None"
      by blast+
    from ne obtain specInd dataFileIndex pos0 rest where
        ts: "timeStepList s = (specInd, dataFileIndex, pos0) # rest"
      by (cases "timeStepList s") auto
    from bulk ts obtain kp fileH vd1 where
        kp: "makeKeywPosVector s specInd = Inr kp"
      and op: "open_data_file fs s specInd dataFileIndex = Inr fileH"
      and st: "loadData_all_steps u fs s (timeStepList s) specInd dataFileIndex kp fileH
                 (vectorData s) = Inr vd1"
      and s1: "vectorData s1 = vd1"
      by (auto simp: loadData_def ebind_Inr_iff split: if_splits)
    have hyp': "\<forall>sp \<in> insert specInd (fst ` set (timeStepList s)).
           unformatted_spec s sp \<and> key_column s ind sp \<noteq> None"
      using hyp ts by auto
    from steps_agree [OF st kp hyp' nl refl il] obtain vd2 where
        r2: "loadData_steps u fs s [ind] (timeStepList s) specInd dataFileIndex fileH
               (vectorData s) = Inr vd2"
      and e2: "vd2 ! ind = vd1 ! ind"
      by blast
    have kv: "keywIndVect_loop s [key] [] = Inr [ind]"
      by (rule keywIndVect_single [OF k nl])
    let ?s2 = "s\<lparr>vectorData := vd2,
                 vectorLoaded := fold (\<lambda>ind vl. vl[ind := True]) [ind] (vectorLoaded s)\<rparr>"
    have cs: "(case timeStepList s of [] \<Rightarrow> Inl Undefined_behaviour
                | (specInd, dataFileIndex, pos0) # rest \<Rightarrow> f specInd dataFileIndex)
              = f specInd dataFileIndex" for f :: "nat \<Rightarrow> nat \<Rightarrow> error + esmry"
      by (simp add: ts)
    have l2: "loadData_vectList u fs [key] s = Inr ?s2"
      unfolding loadData_vectList_def kv ebind_Inr cs op r2 by (rule refl)
    have c: "length (vd2 ! ind) = length (vectorData s ! ind) + length (timeStepList s)"
      using loadData_steps_count [OF r2 il] by simp
    show "\<exists>s2. loadData_vectList u fs [key] s = Inr s2
          \<and> vectorData s2 ! ind = vectorData s1 ! ind
          \<and> length (vectorData s2 ! ind)
               = length (vectorData s ! ind) + length (timeStepList s)
          \<and> vectorLoaded s2 ! ind"
      using l2 e2 s1 c k(3) by (intro exI [of _ ?s2]) simp
  qed
next
  show "vec_nth (arrayPos s) specInd = Inr pos_of \<and> pos_of ind = None \<and> ind < length vd \<longrightarrow>
        load_element u s fileH specInd stepFilePos ind vd = Inr (vd[ind := vd ! ind @ [nanf]])"
    by (simp add: load_element_def push_value_def)
next
  show "read_params u s fileH specInd stepFilePos kp vd = Inr vd' \<and> unformatted_spec s specInd
        \<and> makeKeywPosVector s specInd = Inr kp \<and> int ind \<notin> set kp \<longrightarrow>
        vd' ! ind = vd ! ind"
    using read_params_absent by blast
qed

theorem load_paths_agree_witness:
  "(\<exists>s2. loadData_vectList example_util example_fs [''FOPT''] example_run = Inr s2
        \<and> vectorData s2 ! 0 = [0x40000000]
        \<and> length (vectorData s2 ! 0) = 1
        \<and> vectorLoaded s2 ! 0)
   \<and> load_element example_util example_chain (Some example_base_unsmry) 1 60 0 [[], []]
        = Inr [[nanf], []]
   \<and> read_params example_util example_chain (Some example_base_unsmry) 1 60 [1] [[], []]
        = Inr [[], [0x3F800000]]
   \<and> makeKeywPosVector example_chain 1 = Inr [1]
   \<and> [[], [0x3F800000]] ! 0 = [[], []] ! (0 :: nat)"
proof -
  note t = load_paths_agree [where u = example_util and fs = example_fs and s = example_run
      and ?s1.0 = "example_run\<lparr>vectorData := [[0x40000000], [0x3F800000]],
                               vectorLoaded := [True, True]\<rparr>"
      and key = "''FOPT''" and ind = 0]
  have h: "loadData example_util example_fs example_run
        = Inr (example_run\<lparr>vectorData := [[0x40000000], [0x3F800000]],
                           vectorLoaded := [True, True]\<rparr>)
      \<and> timeStepList example_run \<noteq> []
      \<and> hasKey example_run ''FOPT'' \<and> keyword_index example_run ''FOPT'' = Some 0
      \<and> 0 < length (vectorLoaded example_run) \<and> \<not> vectorLoaded example_run ! 0
      \<and> 0 < length (vectorData example_run)
      \<and> (\<forall>sp \<in> fst ` set (timeStepList example_run).
            unformatted_spec example_run sp \<and> key_column example_run 0 sp \<noteq> None)"
    by (simp add: example_loadData example_run_fields hasKey_def unformatted_spec_def
          key_column_def example_keywpos vec_nth_def)
  have a: "\<exists>s2. loadData_vectList example_util example_fs [''FOPT''] example_run = Inr s2
        \<and> vectorData s2 ! 0 = [0x40000000]
        \<and> length (vectorData s2 ! 0) = 1
        \<and> vectorLoaded s2 ! 0"
    using mp [OF t [THEN conjunct1] h] by (simp add: example_run_fields)
  note c = load_paths_agree [where u = example_util and s = example_chain
      and fileH = "Some example_base_unsmry" and specInd = 1 and stepFilePos = 60
      and pos_of = "[1 \<mapsto> 0]" and ind = 0 and vd = "[[], []]" and kp = "[1]"
      and vd' = "[[], [0x3F800000]]"]
  have r: "read_params example_util example_chain (Some example_base_unsmry) 1 60 [1] [[], []]
        = Inr [[], [0x3F800000]]"
    by (simp add: read_params_def example_chain_fields vec_nth_def example_base_blocks)
  have k: "makeKeywPosVector example_chain 1 = Inr [1]"
    by (simp add: example_chain_keywpos)
  have n: "load_element example_util example_chain (Some example_base_unsmry) 1 60 0 [[], []]
        = Inr [[nanf], []]"
    using c [THEN conjunct2, THEN conjunct1] by (simp add: example_chain_fields vec_nth_def)
  have b: "[[], [0x3F800000]] ! 0 = [[], []] ! (0 :: nat)"
    using c [THEN conjunct2, THEN conjunct2] r k
    by (simp add: unformatted_spec_def example_chain_fields vec_nth_def)
  show ?thesis
    using a n r k b by blast
qed

lemma example_chain_loaded:
  "map_sum id vectorLoaded (loadData example_util example_chain_fs example_chain)
     = Inr [True, True]"
  by (simp add: loadData_def example_chain_fields example_chain_keywpos example_chain_open
        read_params_def vec_nth_def example_blocks example_base_blocks numeral_2_eq_2)

text \<open>
  \<^bold>\<open>C1\<close>. The two ways of loading are meant to give every key the same vector, with NaN at
  the time steps of a spec file that lacks the key. \<open>loadData()\<close> does not: it has no
  branch for a key without column. On the restart chain of \<open>CASE\<close> and its base run \<open>BASE\<close>,
  which has no \<open>FOPT\<close>, there are two time steps; \<open>loadData(vectList)\<close> gives \<open>FOPT\<close> the
  vector \<open>[NaN, 2.0]\<close>, whereas \<open>loadData()\<close> gives it the single value \<open>[2.0]\<close> and marks it
  as loaded.
\<close>

theorem load_paths_differ_counterexample:
  "length (timeStepList example_chain) = 2
   \<and> hasKey example_chain ''FOPT''
   \<and> keyword_index example_chain ''FOPT'' = Some 0
   \<and> ''FOPT'' \<notin> set (keywordListSpecFile example_chain ! 1)
   \<and> map_sum id vectorData
       (loadData_vectList example_util example_chain_fs [''FOPT''] example_chain)
       = Inr [[nanf, 0x40000000], []]
   \<and> map_sum id vectorData (loadData example_util example_chain_fs example_chain)
       = Inr [[0x40000000], [0x3F800000, 0x3F800000]]
   \<and> map_sum id vectorLoaded (loadData example_util example_chain_fs example_chain)
       = Inr [True, True]
   \<and> [nanf, 0x40000000] \<noteq> [0x40000000 :: f32]"
proof -
  have "keywordListSpecFile example_chain = [[''TIME'', ''FOPT''], [''TIME'']]"
    by (simp add: example_chain_def example_esmry_def)
  then show ?thesis
    by (simp add: example_chain_seek example_chain_loadData example_chain_loaded
          example_chain_fields hasKey_def)
qed
section \<open>Writing the ESMRY file\<close>




lemma file_extension_append:
  assumes "f \<noteq> []" "CHR ''.'' \<notin> set t" "t \<noteq> []"
  shows "file_extension (f @ CHR ''.'' # t) = CHR ''.'' # t"
proof -
  have t: "takeWhile (\<lambda>c. c \<noteq> CHR ''.'') (rev (f @ CHR ''.'' # t)) = rev t"
    using assms(2) by (auto simp: takeWhile_tail)
  have l: "length (f @ CHR ''.'' # t) \<ge> 3"
    using assms(1,3) by (cases f; cases t) simp_all
  have n: "f @ CHR ''.'' # t \<noteq> ''.''" "f @ CHR ''.'' # t \<noteq> ''..''"
    using l by (auto dest: arg_cong [where f = length])
  show ?thesis
    unfolding file_extension_def Let_def t using n assms(1) by simp
qed



























end
